theory Spec2Isabelle
  imports Main "HOL-Library.Sublist" "HOL-Library.AList" "HOL-Library.Multiset"
begin

section \<open>JavaScript values as the component registry observes them\<close>

text \<open>
  The registry of \<^verbatim>\<open>dist/modules/component/registry.js\<close> handles values it knows nothing
  about: whatever a module exports, whatever a caller lists. The model keeps the features
  of a value that the registry reads.
  \<^item> Primitives are \<open>JUndefined\<close>, \<open>JNull\<close>, \<open>JBool\<close>, \<open>JNum\<close> and \<open>JStr\<close>.
  \<^item> \<open>JObj ps\<close> is an object given by its own enumerable properties \<open>ps\<close>, in enumeration
    order (an instance shows the members of its prototype, its constructor included,
    among them).
  \<^item> \<open>JRef a\<close> is the object at address \<open>a\<close> of the store: an object that is shared and
    may be changed by whoever holds it.
  \<^item> \<open>JFun n p r\<close> is a function: \<open>n\<close> is its \<^verbatim>\<open>name\<close>, \<open>p\<close> is its \<^verbatim>\<open>prototype\<close>
    property (\<open>None\<close> for an arrow function or a method, which have none), \<open>r\<close> is what
    running it with no argument does, a fault raised or a value returned. The model gives
    a function no other property of its own.

  The code of a module, a constructor or a method is not part of the model, only its
  outcome: it changes neither the store nor the registry.
\<close>

datatype fault = TypeError | ENOENT string | ENOTDIR string | Raised string

datatype jsval =
    JUndefined
  | JNull
  | JBool bool
  | JNum int
  | JStr string
  | JObj "(string \<times> jsval) list"
  | JFun string "jsval option" "fault + jsval"
  | JRef nat

type_synonym props = "(string \<times> jsval) list"

type_synonym store = "props list"

text \<open>The object at an address; an address the store does not hold has no property.\<close>

definition deref :: "store \<Rightarrow> nat \<Rightarrow> props" where
  "deref st a = (if a < length st then st ! a else [])"

fun typeof :: "jsval \<Rightarrow> string" where
  "typeof JUndefined = ''undefined''"
| "typeof JNull = ''object''"
| "typeof (JBool b) = ''boolean''"
| "typeof (JNum n) = ''number''"
| "typeof (JStr s) = ''string''"
| "typeof (JObj ps) = ''object''"
| "typeof (JFun n p r) = ''function''"
| "typeof (JRef a) = ''object''"

text \<open>JavaScript's conversion to a boolean, as \<^verbatim>\<open>!v\<close> and \<^verbatim>\<open>c ? x : y\<close> apply it.\<close>

fun truthy :: "jsval \<Rightarrow> bool" where
  "truthy JUndefined = False"
| "truthy JNull = False"
| "truthy (JBool b) = b"
| "truthy (JNum n) = (n \<noteq> 0)"
| "truthy (JStr s) = (s \<noteq> [])"
| "truthy (JObj ps) = True"
| "truthy (JFun n p r) = True"
| "truthy (JRef a) = True"

text \<open>
  The constructors that values inherit: \<^verbatim>\<open>Object\<close>, \<^verbatim>\<open>Function\<close>, \<^verbatim>\<open>String\<close>,
  \<^verbatim>\<open>Number\<close> and \<^verbatim>\<open>Boolean\<close>, each with its name, a prototype without enumerable
  member, and what a call without argument returns.
\<close>

definition object_constructor :: jsval where
  "object_constructor = JFun ''Object'' (Some (JObj [])) (Inr (JObj []))"

definition function_constructor :: jsval where
  "function_constructor =
     JFun ''Function'' (Some (JFun [] None (Inr JUndefined)))
       (Inr (JFun ''anonymous'' (Some (JObj [])) (Inr JUndefined)))"

definition string_constructor :: jsval where
  "string_constructor = JFun ''String'' (Some (JObj [])) (Inr (JStr []))"

definition number_constructor :: jsval where
  "number_constructor = JFun ''Number'' (Some (JObj [])) (Inr (JNum 0))"

definition boolean_constructor :: jsval where
  "boolean_constructor = JFun ''Boolean'' (Some (JObj [])) (Inr (JBool False))"

text \<open>
  A member of an object: the property the object lists under the name, and where it
  lists none, \<^verbatim>\<open>Object\<close> for \<^verbatim>\<open>constructor\<close>, which every object inherits unless it
  says otherwise, and \<^verbatim>\<open>undefined\<close> for any other name.
\<close>

definition object_member :: "props \<Rightarrow> string \<Rightarrow> jsval" where
  "object_member ps k =
     (case map_of ps k of
        Some v \<Rightarrow> v
      | None \<Rightarrow> if k = ''constructor'' then object_constructor else JUndefined)"

text \<open>
  Reading the property \<open>k\<close> of a value, \<^verbatim>\<open>v.k\<close>: a \<^verbatim>\<open>TypeError\<close> on \<^verbatim>\<open>undefined\<close> and
  \<^verbatim>\<open>null\<close>, \<^verbatim>\<open>undefined\<close> where the property is missing. Of the names the registry
  reads (\<^verbatim>\<open>metadata\<close>, \<^verbatim>\<open>invoke\<close>, \<^verbatim>\<open>prototype\<close>, \<^verbatim>\<open>name\<close>, \<^verbatim>\<open>constructor\<close>), a
  boolean, a number and a string have only \<^verbatim>\<open>constructor\<close>.
\<close>

fun getprop :: "store \<Rightarrow> jsval \<Rightarrow> string \<Rightarrow> fault + jsval" where
  "getprop st JUndefined k = Inl TypeError"
| "getprop st JNull k = Inl TypeError"
| "getprop st (JObj ps) k = Inr (object_member ps k)"
| "getprop st (JRef a) k = Inr (object_member (deref st a) k)"
| "getprop st (JFun n p r) k =
     Inr (if k = ''prototype'' then (case p of None \<Rightarrow> JUndefined | Some v \<Rightarrow> v)
          else if k = ''name'' then JStr n
          else if k = ''constructor'' then function_constructor
          else JUndefined)"
| "getprop st (JStr s) k = Inr (if k = ''constructor'' then string_constructor else JUndefined)"
| "getprop st (JNum i) k = Inr (if k = ''constructor'' then number_constructor else JUndefined)"
| "getprop st (JBool b) k = Inr (if k = ''constructor'' then boolean_constructor else JUndefined)"

text \<open>Calling a value with no argument, \<^verbatim>\<open>f()\<close>: a \<^verbatim>\<open>TypeError\<close> unless it is a function.\<close>

fun call :: "jsval \<Rightarrow> fault + jsval" where
  "call (JFun n p r) = r"
| "call v = Inl TypeError"

text \<open>The method call \<^verbatim>\<open>obj.k()\<close>.\<close>

definition call_method :: "store \<Rightarrow> jsval \<Rightarrow> string \<Rightarrow> fault + jsval" where
  "call_method st obj k = (case getprop st obj k of Inl e \<Rightarrow> Inl e | Inr f \<Rightarrow> call f)"

fun is_object :: "jsval \<Rightarrow> bool" where
  "is_object (JObj ps) = True"
| "is_object (JRef a) = True"
| "is_object (JFun n p r) = True"
| "is_object v = False"

text \<open>The members an instance takes from the prototype object of its constructor.\<close>

fun members :: "store \<Rightarrow> jsval \<Rightarrow> props" where
  "members st (JObj ps) = ps"
| "members st (JRef a) = deref st a"
| "members st v = []"

text \<open>
  What a new instance of the function \<open>f\<close> with the prototype \<open>p\<close> shows: the members of
  \<open>p\<close>, and as its \<^verbatim>\<open>constructor\<close> the function \<open>f\<close>, which is the constructor of the
  prototype of a function unless the prototype lists another.
\<close>

definition instance_props :: "store \<Rightarrow> jsval \<Rightarrow> jsval \<Rightarrow> props" where
  "instance_props st f p =
     (if map_of (members st p) ''constructor'' = None
      then members st p @ [(''constructor'', f)]
      else members st p)"

text \<open>
  \<^verbatim>\<open>new f()\<close>: a \<^verbatim>\<open>TypeError\<close> when \<open>f\<close> is no constructor; the fault of the constructor
  when it raises; the object the constructor returns when it returns one; otherwise the
  new instance.
\<close>

fun construct :: "store \<Rightarrow> jsval \<Rightarrow> fault + jsval" where
  "construct st (JFun n None r) = Inl TypeError"
| "construct st (JFun n (Some p) r) =
     (case r of
        Inl e \<Rightarrow> Inl e
      | Inr v \<Rightarrow> Inr (if is_object v then v else JObj (instance_props st (JFun n (Some p) r) p)))"
| "construct st v = Inl TypeError"

text \<open>Decimal digits of an index, for the index properties of a string.\<close>

fun digits :: "nat \<Rightarrow> string" where
  "digits n = (if n < 10 then [char_of (48 + n)] else digits (n div 10) @ [char_of (48 + n mod 10)])"

declare digits.simps [simp del]

text \<open>
  The own enumerable properties of a value, as \<^verbatim>\<open>Object.values\<close> and
  \<^verbatim>\<open>Object.assign\<close> enumerate them: those of an object, the characters of a string under
  their indices, none for the other values.
\<close>

fun own_props :: "store \<Rightarrow> jsval \<Rightarrow> props" where
  "own_props st (JObj ps) = ps"
| "own_props st (JRef a) = deref st a"
| "own_props st (JStr s) = map (\<lambda>i. (digits i, JStr [s ! i])) [0..<length s]"
| "own_props st v = []"

text \<open>\<^verbatim>\<open>Object.values(v)\<close>: a \<^verbatim>\<open>TypeError\<close> on \<^verbatim>\<open>undefined\<close> and \<^verbatim>\<open>null\<close>.\<close>

fun object_values :: "store \<Rightarrow> jsval \<Rightarrow> fault + jsval list" where
  "object_values st JUndefined = Inl TypeError"
| "object_values st JNull = Inl TypeError"
| "object_values st v = Inr (map snd (own_props st v))"

section \<open>The capability test\<close>

text \<open>
  Modelled from the spec: \<^verbatim>\<open>isType\<close> of \<^verbatim>\<open>common/definitions\<close> is not among the
  sources. The spec calls what it accepts a constructible type; the values of the model
  that can be constructed or called are the functions.
\<close>

definition isType :: "jsval \<Rightarrow> bool" where
  "isType v = (typeof v = ''function'')"

text \<open>
  \<^verbatim>\<open>isComponent(ref)\<close>, with the evaluation order of \<^verbatim>\<open>&&\<close> and \<^verbatim>\<open>||\<close>: a property
  is read only when everything to its left let the evaluation reach it, and a read that
  faults ends the test with the fault.
\<close>

definition isComponent_class :: "store \<Rightarrow> jsval \<Rightarrow> fault + bool" where
  "isComponent_class st ref =
     (if isType ref then
        (case getprop st ref ''prototype'' of
           Inl e \<Rightarrow> Inl e
         | Inr p \<Rightarrow>
            (case getprop st p ''metadata'' of
               Inl e \<Rightarrow> Inl e
             | Inr m \<Rightarrow>
                (if isType m then
                   (case getprop st p ''invoke'' of
                      Inl e \<Rightarrow> Inl e
                    | Inr i \<Rightarrow> Inr (isType i))
                 else Inr False)))
      else Inr False)"

definition isComponent_legacy :: "store \<Rightarrow> jsval \<Rightarrow> fault + bool" where
  "isComponent_legacy st ref =
     (if typeof ref = ''object'' then
        (case getprop st ref ''metadata'' of
           Inl e \<Rightarrow> Inl e
         | Inr m \<Rightarrow>
            (if isType m then
               (case getprop st ref ''invoke'' of
                  Inl e \<Rightarrow> Inl e
                | Inr i \<Rightarrow> Inr (isType i))
             else Inr False))
      else Inr False)"

definition isComponent :: "store \<Rightarrow> jsval \<Rightarrow> fault + bool" where
  "isComponent st ref =
     (case isComponent_class st ref of
        Inl e \<Rightarrow> Inl e
      | Inr True \<Rightarrow> Inr True
      | Inr False \<Rightarrow> isComponent_legacy st ref)"

section \<open>The registry\<close>

text \<open>
  A registry node: \<^verbatim>\<open>_parent\<close>, \<^verbatim>\<open>_collections\<close> and \<^verbatim>\<open>_components\<close>. The two maps are
  JavaScript \<^verbatim>\<open>Map\<close>s, which keep their keys in insertion order: association lists
  with distinct keys, read with \<open>map_of\<close> and written with \<open>AList.update\<close>. The
  keys of \<^verbatim>\<open>_components\<close> are whatever \<^verbatim>\<open>metadata().name\<close> gave; a \<^verbatim>\<open>Map\<close> compares
  them as the equality of \<open>jsval\<close> does on primitives and on stored objects. The parent
  is the value the registry was constructed with; no operation reads it again.

  What a logger call receives is kept as a \<open>logentry\<close>, not as text: the duplicate
  name and the name of the constructor of the rejected component, which the message
  interpolates; the directory; the requested collection; the fault that was caught.
\<close>

datatype registry =
  Registry (r_parent: "registry option")
           (r_collections: "(string \<times> registry) list")
           (r_components: "(jsval \<times> jsval) list")

datatype logentry =
    Warn_duplicate jsval jsval
  | Error_invalid_dir string
  | Error_invalid_registry jsval
  | Error_caught fault

type_synonym state = "registry \<times> logentry list"

definition new_registry :: "registry option \<Rightarrow> registry" where
  "new_registry p = Registry p [] []"

definition getComponents :: "registry \<Rightarrow> (jsval \<times> jsval) list" where
  "getComponents this = r_components this"

definition getComponent :: "registry \<Rightarrow> jsval \<Rightarrow> jsval option" where
  "getComponent this name = map_of (r_components this) name"

definition isCollection :: "registry \<Rightarrow> string \<Rightarrow> bool" where
  "isCollection this name = (map_of (r_collections this) name \<noteq> None)"

text \<open>The method \<^verbatim>\<open>isComponent(name)\<close> of a registry: \<^verbatim>\<open>this._components.has(name)\<close>.\<close>

definition hasComponent :: "registry \<Rightarrow> jsval \<Rightarrow> bool" where
  "hasComponent this name = (map_of (r_components this) name \<noteq> None)"

definition getCollectionNames :: "registry \<Rightarrow> string list" where
  "getCollectionNames this = map fst (r_collections this)"

text \<open>
  \<^verbatim>\<open>(this._components.size || this._collections.size) > 0\<close>: \<^verbatim>\<open>||\<close> gives its left
  operand unless that is zero.
\<close>

definition isValid :: "registry \<Rightarrow> bool" where
  "isValid this =
     ((if length (r_components this) \<noteq> 0 then length (r_components this)
       else length (r_collections this)) > 0)"

text \<open>
  \<^verbatim>\<open>getRegistry(collection)\<close>; \<open>None\<close> is \<^verbatim>\<open>undefined\<close>. The keys of \<^verbatim>\<open>_collections\<close>
  are strings, so no other value finds an entry.
\<close>

definition getRegistry :: "registry \<Rightarrow> jsval \<Rightarrow> registry option" where
  "getRegistry this collection =
     (if truthy collection then
        (case collection of JStr s \<Rightarrow> map_of (r_collections this) s | _ \<Rightarrow> None)
      else Some this)"

text \<open>
  The name under which a component registers: \<^verbatim>\<open>component.metadata()\<close>, then
  \<^verbatim>\<open>meta.name\<close>. Either step may fault.
\<close>

definition metadata_name :: "store \<Rightarrow> jsval \<Rightarrow> fault + jsval" where
  "metadata_name st component =
     (case call_method st component ''metadata'' of
        Inl e \<Rightarrow> Inl e
      | Inr meta \<Rightarrow> getprop st meta ''name'')"

text \<open>
  \<^verbatim>\<open>component['constructor'].name\<close>, which the duplicate warning interpolates: it faults
  when the constructor of the component is \<^verbatim>\<open>undefined\<close> or \<^verbatim>\<open>null\<close>.
\<close>

definition constructor_name :: "store \<Rightarrow> jsval \<Rightarrow> fault + jsval" where
  "constructor_name st component =
     (case getprop st component ''constructor'' of
        Inl e \<Rightarrow> Inl e
      | Inr ctor \<Rightarrow> getprop st ctor ''name'')"

text \<open>
  \<^verbatim>\<open>__register(component)\<close>. The state is the registry and the log; a fault while the
  name is read, or while the message of the warning is built, leaves the method. Here and
  below a run that ends in a fault is the fault alone: what it had logged or registered
  before is not kept.
\<close>

definition register :: "store \<Rightarrow> jsval \<Rightarrow> state \<Rightarrow> fault + state" where
  "register st component s =
     (case s of (this, log) \<Rightarrow>
        (case metadata_name st component of
           Inl e \<Rightarrow> Inl e
         | Inr name \<Rightarrow>
            (if hasComponent this name
             then (case constructor_name st component of
                     Inl e \<Rightarrow> Inl e
                   | Inr cname \<Rightarrow> Inr (this, log @ [Warn_duplicate name cname]))
             else Inr (Registry (r_parent this) (r_collections this)
                         (AList.update name component (r_components this)), log))))"

text \<open>\<^verbatim>\<open>components.forEach(component => this.__register(component))\<close>.\<close>

fun register_all :: "store \<Rightarrow> jsval list \<Rightarrow> state \<Rightarrow> fault + state" where
  "register_all st [] s = Inr s"
| "register_all st (component # cs) s =
     (case register st component s of
        Inl e \<Rightarrow> Inl e
      | Inr s' \<Rightarrow> register_all st cs s')"

text \<open>
  \<^verbatim>\<open>this._collections.forEach(collection => collection.__register(component))\<close>: each
  child, in the order of the map, registers the component.
\<close>

fun register_in_collections ::
  "store \<Rightarrow> jsval \<Rightarrow> (string \<times> registry) list \<Rightarrow> logentry list \<Rightarrow>
   fault + ((string \<times> registry) list \<times> logentry list)" where
  "register_in_collections st component [] log = Inr ([], log)"
| "register_in_collections st component ((k, collection) # cs) log =
     (case register st component (collection, log) of
        Inl e \<Rightarrow> Inl e
      | Inr (collection', log') \<Rightarrow>
         (case register_in_collections st component cs log' of
            Inl e \<Rightarrow> Inl e
          | Inr (cs', log'') \<Rightarrow> Inr ((k, collection') # cs', log'')))"

text \<open>
  The loop of \<^verbatim>\<open>merge\<close> over the components of the source registry. The source is taken
  as a registry of its own, not the receiver or one of its collections.
\<close>

fun merge_each :: "store \<Rightarrow> bool \<Rightarrow> jsval list \<Rightarrow> state \<Rightarrow> fault + state" where
  "merge_each st recursive [] s = Inr s"
| "merge_each st recursive (component # cs) s =
     (case register st component s of
        Inl e \<Rightarrow> Inl e
      | Inr (this, log) \<Rightarrow>
         (if recursive then
            (case register_in_collections st component (r_collections this) log of
               Inl e \<Rightarrow> Inl e
             | Inr (colls, log') \<Rightarrow>
                merge_each st recursive cs
                  (Registry (r_parent this) colls (r_components this), log'))
          else merge_each st recursive cs (this, log)))"

definition merge :: "store \<Rightarrow> registry \<Rightarrow> bool \<Rightarrow> state \<Rightarrow> fault + state" where
  "merge st registry recursive s =
     merge_each st recursive (map snd (getComponents registry)) s"

text \<open>
  The loop of \<^verbatim>\<open>getMetadata\<close>: \<^verbatim>\<open>meta.push(Object.assign({}, component.metadata()))\<close>.
  \<^verbatim>\<open>Object.assign\<close> fills a new object, allocated at the end of the store, with the own
  properties of the descriptor; the array receives the new object.
\<close>

fun copy_metadata ::
  "(jsval \<times> jsval) list \<Rightarrow> jsval list \<Rightarrow> store \<Rightarrow> fault + (jsval list \<times> store)" where
  "copy_metadata [] meta st = Inr (meta, st)"
| "copy_metadata ((name, component) # cs) meta st =
     (case call_method st component ''metadata'' of
        Inl e \<Rightarrow> Inl e
      | Inr m \<Rightarrow> copy_metadata cs (meta @ [JRef (length st)]) (st @ [own_props st m]))"

text \<open>
  \<^verbatim>\<open>getMetadata(collection)\<close>; a call without argument passes \<^verbatim>\<open>undefined\<close>. It returns
  the array, the store and the log.
\<close>

definition getMetadata ::
  "registry \<Rightarrow> jsval \<Rightarrow> store \<Rightarrow> logentry list \<Rightarrow> fault + (jsval list \<times> store \<times> logentry list)" where
  "getMetadata this collection st log =
     (case getRegistry this collection of
        Some registry \<Rightarrow>
          (case copy_metadata (getComponents registry) [] st of
             Inl e \<Rightarrow> Inl e
           | Inr (meta, st') \<Rightarrow> Inr (meta, st', log))
      | None \<Rightarrow> Inr ([], st, log @ [Error_invalid_registry collection]))"

text \<open>
  \<^verbatim>\<open>makeCtor(type)\<close>: a type is its own constructor; any other reference is wrapped in
  \<^verbatim>\<open>LegacyComponentWrapper\<close>, a function that returns the reference. \<^verbatim>\<open>__componentFactory\<close>
  constructs with the result, so that a legacy object is the instance itself.
\<close>

definition makeCtor :: "jsval \<Rightarrow> jsval" where
  "makeCtor ref =
     (if isType ref then ref
      else JFun ''LegacyComponentWrapper'' (Some (JObj [])) (Inr ref))"

definition componentFactory :: "store \<Rightarrow> jsval \<Rightarrow> fault + jsval" where
  "componentFactory st ref = construct st (makeCtor ref)"

section \<open>Paths\<close>

unbundle bit_operations_syntax


text \<open>
  Node's \<^verbatim>\<open>path\<close> module on POSIX paths. A path is cut at its separators;
  \<^verbatim>\<open>normalizeString\<close> drops empty and \<^verbatim>\<open>.\<close> segments and lets \<^verbatim>\<open>..\<close> take back the
  segment before it, keeping a leading \<^verbatim>\<open>..\<close> only where the path may rise above its
  start.
\<close>

fun split_path :: "string \<Rightarrow> string list" where
  "split_path [] = [[]]"
| "split_path (c # cs) =
     (if c = CHR ''/'' then [] # split_path cs
      else (case split_path cs of [] \<Rightarrow> [[c]] | s # ss \<Rightarrow> (c # s) # ss))"

fun normalizeString :: "bool \<Rightarrow> string list \<Rightarrow> string list \<Rightarrow> string list" where
  "normalizeString allowAboveRoot res [] = res"
| "normalizeString allowAboveRoot res (s # ss) =
     (if s = [] \<or> s = ''.'' then normalizeString allowAboveRoot res ss
      else if s = ''..'' then
        (if res \<noteq> [] \<and> last res \<noteq> ''..'' then normalizeString allowAboveRoot (butlast res) ss
         else if allowAboveRoot then normalizeString allowAboveRoot (res @ [''..'']) ss
         else normalizeString allowAboveRoot res ss)
      else normalizeString allowAboveRoot (res @ [s]) ss)"

fun join_segments :: "string list \<Rightarrow> string" where
  "join_segments [] = []"
| "join_segments [s] = s"
| "join_segments (s # ss) = s @ ''/'' @ join_segments ss"

text \<open>\<^verbatim>\<open>path.normalize\<close>, \<^verbatim>\<open>path.join\<close> of two paths and \<^verbatim>\<open>path.resolve\<close> of one path
  against the directory of the process.\<close>

definition path_normalize :: "string \<Rightarrow> string" where
  "path_normalize p =
     (if p = [] then ''.''
      else
        (let isAbsolute = (hd p = CHR ''/'');
             trailingSeparator = (last p = CHR ''/'');
             q = join_segments (normalizeString (\<not> isAbsolute) [] (split_path p))
         in if q = [] then (if isAbsolute then ''/'' else if trailingSeparator then ''./'' else ''.'')
            else (if isAbsolute then ''/'' else []) @ q @ (if trailingSeparator then ''/'' else [])))"

definition path_join :: "string \<Rightarrow> string \<Rightarrow> string" where
  "path_join a b =
     (if a = [] \<and> b = [] then ''.''
      else if a = [] then path_normalize b
      else if b = [] then path_normalize a
      else path_normalize (a @ ''/'' @ b))"

definition path_resolve :: "string \<Rightarrow> string \<Rightarrow> string" where
  "path_resolve cwd p =
     (let resolvedPath = (if p = [] then cwd @ ''/''
                          else if hd p = CHR ''/'' then p @ ''/''
                          else cwd @ ''/'' @ p @ ''/'');
          resolvedAbsolute = (resolvedPath \<noteq> [] \<and> hd resolvedPath = CHR ''/'');
          q = join_segments (normalizeString (\<not> resolvedAbsolute) [] (split_path resolvedPath))
      in if resolvedAbsolute then ''/'' @ q else if q \<noteq> [] then q else ''.'')"

text \<open>
  \<^verbatim>\<open>path.basename\<close> is the last segment that is not empty. \<^verbatim>\<open>path.extname\<close> is the
  part of it from its last dot on, and empty when there is no dot, when the only dot
  comes first, and for \<^verbatim>\<open>..\<close>.
\<close>

definition basename :: "string \<Rightarrow> string" where
  "basename p = (case filter (\<lambda>s. s \<noteq> []) (split_path p) of [] \<Rightarrow> [] | ss \<Rightarrow> last ss)"

definition extname :: "string \<Rightarrow> string" where
  "extname name =
     (let b = basename name;
          ext = CHR ''.'' # rev (takeWhile (\<lambda>c. c \<noteq> CHR ''.'') (rev b))
      in if CHR ''.'' \<notin> set b \<or> b = ''..'' \<or> length ext = length b then [] else ext)"

text \<open>
  \<^verbatim>\<open>s.indexOf(pat)\<close>: the first position at which \<open>pat\<close> occurs in \<open>s\<close>, or \<open>-1\<close>.
\<close>

fun index_from :: "string \<Rightarrow> string \<Rightarrow> int \<Rightarrow> int" where
  "index_from pat [] i = (if pat = [] then i else - 1)"
| "index_from pat (c # cs) i = (if prefix pat (c # cs) then i else index_from pat cs (i + 1))"

definition indexOf :: "string \<Rightarrow> string \<Rightarrow> int" where
  "indexOf s pat = index_from pat s 0"

text \<open>
  \<^verbatim>\<open>fullPath(cwd, dirname)\<close>: \<^verbatim>\<open>~dirname.indexOf(cwd) ? dirname : path.join(cwd, dirname)\<close>.
  The complement \<^verbatim>\<open>~i\<close> is zero, hence false, exactly for \<open>i = -1\<close>.
\<close>

definition fullPath :: "string \<Rightarrow> string \<Rightarrow> string" where
  "fullPath cwd dirname =
     (if NOT (indexOf dirname cwd) \<noteq> 0 then dirname else path_join cwd dirname)"

section \<open>The file system and the loading of modules\<close>

text \<open>
  What the registry meets on disk: a file, given by what \<^verbatim>\<open>require\<close> of it does (a fault
  raised while the module loads, or the value it exports), a directory with its entries
  by name, or something that is neither. A directory is a finite tree: what \<^verbatim>\<open>statSync\<close>
  finds at the joined path of an entry is the entry, and links that lead back into a
  directory are not modelled. The environment of a run is what \<^verbatim>\<open>fs\<close> finds
  at a path, the directory of the process, and the order in which \<^verbatim>\<open>Array.prototype.sort\<close>
  leaves the paths of a listing. The comparator of \<^verbatim>\<open>__scanDir\<close> answers 1 when its first
  argument is a directory and 0 otherwise, which is no consistent comparison, so the
  order is the engine's choice; the sort is a parameter that receives each path with
  the answer of \<^verbatim>\<open>isDirectory\<close> and returns the paths.
\<close>

datatype fsnode = File "fault + jsval" | Dir "(string \<times> fsnode) list" | Special

record env =
  env_fs :: "string \<Rightarrow> fsnode option"
  env_cwd :: string
  env_sort :: "(string \<times> bool) list \<Rightarrow> string list"

fun isDirectory :: "fsnode \<Rightarrow> bool" where
  "isDirectory (Dir es) = True"
| "isDirectory n = False"

text \<open>
  The filter of \<^verbatim>\<open>__scanDir\<close>, \<^verbatim>\<open>~['', '.js'].indexOf(path.extname(name))\<close>: true
  unless the extension is missing from the array.
\<close>

definition keep_name :: "string \<Rightarrow> bool" where
  "keep_name name = (extname name \<in> set [[], ''.js''])"

text \<open>
  The entries of a directory that pass the filter, under their joined paths:
  \<^verbatim>\<open>fs.readdirSync(dir).filter(...).map(name => path.join(dir, name))\<close>.
\<close>

definition listing :: "string \<Rightarrow> (string \<times> fsnode) list \<Rightarrow> (string \<times> fsnode) list" where
  "listing dir es =
     map (\<lambda>e. (path_join dir (fst e), snd e)) (filter (\<lambda>e. keep_name (fst e)) es)"

text \<open>
  The first two lines of \<^verbatim>\<open>__digestPath\<close>: the path itself when it exists, with
  \<^verbatim>\<open>.js\<close> appended when not, and \<^verbatim>\<open>fs.statSync\<close> of the result, which raises when
  nothing is there.
\<close>

definition stat_js :: "(string \<Rightarrow> fsnode option) \<Rightarrow> string \<Rightarrow> fault + (string \<times> fsnode)" where
  "stat_js stat filePath =
     (let fp = (if stat filePath \<noteq> None then filePath else filePath @ ''.js'')
      in case stat fp of None \<Rightarrow> Inl (ENOENT fp) | Some n \<Rightarrow> Inr (fp, n))"

text \<open>\<^verbatim>\<open>values.filter(isComponent)\<close>: the test runs on every value, in order.\<close>

fun filter_isComponent :: "store \<Rightarrow> jsval list \<Rightarrow> fault + jsval list" where
  "filter_isComponent st [] = Inr []"
| "filter_isComponent st (v # vs) =
     (case isComponent st v of
        Inl e \<Rightarrow> Inl e
      | Inr b \<Rightarrow>
         (case filter_isComponent st vs of
            Inl e \<Rightarrow> Inl e
          | Inr r \<Rightarrow> Inr (if b then v # r else r)))"

text \<open>
  \<^verbatim>\<open>__resolveComponents\<close>: the body of its \<^verbatim>\<open>try\<close>, given what \<^verbatim>\<open>require(filePath)\<close>
  does, and the method, whose \<^verbatim>\<open>catch\<close> logs the fault and returns no component.
\<close>

definition resolveComponents_try :: "store \<Rightarrow> fault + jsval \<Rightarrow> fault + jsval list" where
  "resolveComponents_try st required =
     (case required of
        Inl e \<Rightarrow> Inl e
      | Inr m \<Rightarrow>
         (case isComponent st m of
            Inl e \<Rightarrow> Inl e
          | Inr True \<Rightarrow> Inr [m]
          | Inr False \<Rightarrow>
             (case object_values st m of
                Inl e \<Rightarrow> Inl e
              | Inr vs \<Rightarrow> filter_isComponent st vs)))"

definition resolveComponents ::
  "store \<Rightarrow> fault + jsval \<Rightarrow> logentry list \<Rightarrow> jsval list \<times> logentry list" where
  "resolveComponents st required log =
     (case resolveComponents_try st required of
        Inl e \<Rightarrow> ([], log @ [Error_caught e])
      | Inr cs \<Rightarrow> (cs, log))"

text \<open>\<^verbatim>\<open>refs.map(c => this.__componentFactory(c))\<close>.\<close>

fun map_componentFactory :: "store \<Rightarrow> jsval list \<Rightarrow> fault + jsval list" where
  "map_componentFactory st [] = Inr []"
| "map_componentFactory st (c # cs) =
     (case componentFactory st c of
        Inl e \<Rightarrow> Inl e
      | Inr i \<Rightarrow>
         (case map_componentFactory st cs of
            Inl e \<Rightarrow> Inl e
          | Inr r \<Rightarrow> Inr (i # r)))"

subsection \<open>Scanning without collections\<close>

text \<open>
  \<^verbatim>\<open>__scanDir(dir, false)\<close> calls \<^verbatim>\<open>__digestPath(file, false)\<close> on every path of the
  sorted listing, and \<^verbatim>\<open>__digestPath(filePath, false)\<close> calls \<^verbatim>\<open>__scanDir(filePath, false)\<close>
  on a directory: with grouping disabled the two never enable it again, and they touch
  no field of the registry but its logger. They are defined by recursion over the
  directory tree: \<open>scanDir_flat\<close> is given the entries that \<^verbatim>\<open>readdirSync\<close> lists,
  \<open>digestPath_flat\<close> stats a path among the listed children, and \<open>digestEach_flat\<close> is the
  \<^verbatim>\<open>map\<close> over the sorted paths. They return the instances and the log.
\<close>

fun fs_size :: "fsnode \<Rightarrow> nat" where
  "fs_size (Dir es) = Suc (sum_list (map (\<lambda>e. fs_size (snd e)) es))"
| "fs_size n = 0"

definition entries_size :: "(string \<times> fsnode) list \<Rightarrow> nat" where
  "entries_size es = sum_list (map (\<lambda>e. fs_size (snd e)) es)"

function scanDir_flat ::
    "env \<Rightarrow> store \<Rightarrow> string \<Rightarrow> (string \<times> fsnode) list \<Rightarrow> logentry list \<Rightarrow>
     fault + (jsval list \<times> logentry list)"
  and digestEach_flat ::
    "env \<Rightarrow> store \<Rightarrow> (string \<times> fsnode) list \<Rightarrow> string list \<Rightarrow> logentry list \<Rightarrow>
     fault + (jsval list list \<times> logentry list)"
  and digestPath_flat ::
    "env \<Rightarrow> store \<Rightarrow> (string \<times> fsnode) list \<Rightarrow> string \<Rightarrow> logentry list \<Rightarrow>
     fault + (jsval list \<times> logentry list)"
where
  "scanDir_flat E st dir es log =
     (case digestEach_flat E st (listing dir es)
             (env_sort E (map (\<lambda>e. (fst e, isDirectory (snd e))) (listing dir es))) log of
        Inl e \<Rightarrow> Inl e
      | Inr (results, log') \<Rightarrow> Inr (concat results, log'))"
| "digestEach_flat E st children [] log = Inr ([], log)"
| "digestEach_flat E st children (file # files) log =
     (case digestPath_flat E st children file log of
        Inl e \<Rightarrow> Inl e
      | Inr (r, log') \<Rightarrow>
         (case digestEach_flat E st children files log' of
            Inl e \<Rightarrow> Inl e
          | Inr (rs, log'') \<Rightarrow> Inr (r # rs, log'')))"
| "digestPath_flat E st children filePath log =
     (case stat_js (map_of children) filePath of
        Inl e \<Rightarrow> Inl e
      | Inr (fp, Dir es) \<Rightarrow> scanDir_flat E st fp es log
      | Inr (fp, File required) \<Rightarrow>
         (case resolveComponents st required log of
            (cs, log') \<Rightarrow>
              (case map_componentFactory st cs of
                 Inl e \<Rightarrow> Inl e
               | Inr is \<Rightarrow> Inr (is, log')))
      | Inr (fp, Special) \<Rightarrow> Inr ([], log))"
  by pat_completeness auto
termination
proof (relation "measures [
     (\<lambda>x. case x of
        Inl (E, st, dir, es, log) \<Rightarrow> 3 * entries_size es + 2
      | Inr (Inl (E, st, children, files, log)) \<Rightarrow> 3 * entries_size children + 1
      | Inr (Inr (E, st, children, file, log)) \<Rightarrow> 3 * entries_size children),
     (\<lambda>x. case x of
        Inl (E, st, dir, es, log) \<Rightarrow> 0
      | Inr (Inl (E, st, children, files, log)) \<Rightarrow> length files
      | Inr (Inr (E, st, children, file, log)) \<Rightarrow> 0)]", goal_cases)
  case 1
  show ?case by simp
next
  case (2 E st dir es log)
  have "entries_size (listing dir es) \<le> entries_size es"
    unfolding entries_size_def listing_def by (induction es) auto
  then show ?case by simp
next
  case (3 E st children f fs log)
  show ?case by simp
next
  case (4 E st children f fs log x r log')
  show ?case by simp
next
  case (5 E st children filePath log x fp n es)
  have sub: "map_of cs p = Some (Dir es) \<Longrightarrow> Suc (entries_size es) \<le> entries_size cs"
    for cs :: "(string \<times> fsnode) list" and p
    unfolding entries_size_def by (induction cs) (auto split: if_splits)
  from 5 have "\<exists>p. map_of children p = Some (Dir es)"
    unfolding stat_js_def Let_def by (auto split: option.splits if_splits)
  then have "Suc (entries_size es) \<le> entries_size children"
    using sub by blast
  then show ?case by simp
qed

subsection \<open>Building a registry from the file system\<close>

text \<open>
  \<^verbatim>\<open>__buildFromFs(baseDir, false)\<close>. \<^verbatim>\<open>fs.readdirSync\<close> raises on a path that exists and
  is no directory.
\<close>

definition buildFromFs_flat :: "env \<Rightarrow> store \<Rightarrow> string \<Rightarrow> state \<Rightarrow> fault + state" where
  "buildFromFs_flat E st baseDir s =
     (case s of (this, log) \<Rightarrow>
        (let dir = path_resolve (env_cwd E) baseDir in
         case env_fs E dir of
           None \<Rightarrow> Inr (this, log @ [Error_invalid_dir baseDir])
         | Some (Dir es) \<Rightarrow>
            (case scanDir_flat E st dir es log of
               Inl e \<Rightarrow> Inl e
             | Inr (cs, log') \<Rightarrow> register_all st cs (this, log'))
         | Some n \<Rightarrow> Inl (ENOTDIR dir)))"

text \<open>
  \<^verbatim>\<open>ComponentRegistry.assemble(parent, componentDir, cwd)\<close> for a parent that is a
  registry, as \<^verbatim>\<open>_addCollection\<close> calls it: \<^verbatim>\<open>!parent\<close> is false.
\<close>

definition assemble_nested ::
  "env \<Rightarrow> store \<Rightarrow> registry \<Rightarrow> string \<Rightarrow> string \<Rightarrow> logentry list \<Rightarrow> fault + state" where
  "assemble_nested E st parent componentDir cwd log =
     buildFromFs_flat E st (fullPath cwd componentDir) (new_registry (Some parent), log)"

text \<open>
  \<^verbatim>\<open>_addCollection(subdir)\<close>:
  \<^verbatim>\<open>this._collections.set(path.basename(subdir), ComponentRegistry.assemble(this, subdir))\<close>,
  where \<^verbatim>\<open>cwd\<close> takes its default, the directory of the process.
\<close>

definition addCollection :: "env \<Rightarrow> store \<Rightarrow> string \<Rightarrow> state \<Rightarrow> fault + state" where
  "addCollection E st subdir s =
     (case s of (this, log) \<Rightarrow>
        (case assemble_nested E st this subdir (env_cwd E) log of
           Inl e \<Rightarrow> Inl e
         | Inr (child, log') \<Rightarrow>
            Inr (Registry (r_parent this)
                   (AList.update (basename subdir) child (r_collections this))
                   (r_components this), log')))"

text \<open>
  \<^verbatim>\<open>__digestPath(filePath, withCollections)\<close>; \<open>stat\<close> is what \<^verbatim>\<open>fs\<close> finds where the
  method looks.
\<close>

definition digestPath ::
  "env \<Rightarrow> store \<Rightarrow> (string \<Rightarrow> fsnode option) \<Rightarrow> string \<Rightarrow> bool \<Rightarrow> state \<Rightarrow>
   fault + (jsval list \<times> state)" where
  "digestPath E st stat filePath withCollections s =
     (case s of (this, log) \<Rightarrow>
        (case stat_js stat filePath of
           Inl e \<Rightarrow> Inl e
         | Inr (fp, Dir es) \<Rightarrow>
            (if withCollections then
               (case addCollection E st fp (this, log) of
                  Inl e \<Rightarrow> Inl e
                | Inr s' \<Rightarrow> Inr ([], s'))
             else
               (case scanDir_flat E st fp es log of
                  Inl e \<Rightarrow> Inl e
                | Inr (cs, log') \<Rightarrow> Inr (cs, (this, log'))))
         | Inr (fp, File required) \<Rightarrow>
            (case resolveComponents st required log of
               (cs, log') \<Rightarrow>
                 (case map_componentFactory st cs of
                    Inl e \<Rightarrow> Inl e
                  | Inr is \<Rightarrow> Inr (is, (this, log'))))
         | Inr (fp, Special) \<Rightarrow> Inr ([], (this, log))))"

text \<open>\<^verbatim>\<open>files.map(file => this.__digestPath(file, withCollections))\<close>.\<close>

fun digestEach ::
  "env \<Rightarrow> store \<Rightarrow> (string \<times> fsnode) list \<Rightarrow> bool \<Rightarrow> string list \<Rightarrow> state \<Rightarrow>
   fault + (jsval list list \<times> state)" where
  "digestEach E st children withCollections [] s = Inr ([], s)"
| "digestEach E st children withCollections (file # files) s =
     (case digestPath E st (map_of children) file withCollections s of
        Inl e \<Rightarrow> Inl e
      | Inr (r, s') \<Rightarrow>
         (case digestEach E st children withCollections files s' of
            Inl e \<Rightarrow> Inl e
          | Inr (rs, s'') \<Rightarrow> Inr (r # rs, s'')))"

text \<open>\<^verbatim>\<open>__scanDir(dir, withCollections)\<close>, on the entries of \<open>dir\<close>.\<close>

definition scanDir ::
  "env \<Rightarrow> store \<Rightarrow> string \<Rightarrow> (string \<times> fsnode) list \<Rightarrow> bool \<Rightarrow> state \<Rightarrow>
   fault + (jsval list \<times> state)" where
  "scanDir E st dir es withCollections s =
     (case digestEach E st (listing dir es) withCollections
             (env_sort E (map (\<lambda>e. (fst e, isDirectory (snd e))) (listing dir es))) s of
        Inl e \<Rightarrow> Inl e
      | Inr (results, s') \<Rightarrow> Inr (concat results, s'))"

text \<open>\<^verbatim>\<open>__buildFromFs(baseDir, withCollections)\<close>.\<close>

definition buildFromFs :: "env \<Rightarrow> store \<Rightarrow> string \<Rightarrow> bool \<Rightarrow> state \<Rightarrow> fault + state" where
  "buildFromFs E st baseDir withCollections s =
     (case s of (this, log) \<Rightarrow>
        (let dir = path_resolve (env_cwd E) baseDir in
         case env_fs E dir of
           None \<Rightarrow> Inr (this, log @ [Error_invalid_dir baseDir])
         | Some (Dir es) \<Rightarrow>
            (case scanDir E st dir es withCollections (this, log) of
               Inl e \<Rightarrow> Inl e
             | Inr (cs, s') \<Rightarrow> register_all st cs s')
         | Some n \<Rightarrow> Inl (ENOTDIR dir)))"

text \<open>
  \<^verbatim>\<open>ComponentRegistry.assemble(parent, componentDir, cwd)\<close>; \<open>None\<close> is the parent
  \<^verbatim>\<open>null\<close>.
\<close>

definition assemble ::
  "env \<Rightarrow> store \<Rightarrow> registry option \<Rightarrow> string \<Rightarrow> string \<Rightarrow> logentry list \<Rightarrow> fault + state" where
  "assemble E st parent componentDir cwd log =
     buildFromFs E st (fullPath cwd componentDir) (parent = None) (new_registry parent, log)"

subsection \<open>Building a registry from a list\<close>

text \<open>One step of the \<^verbatim>\<open>map\<close> of \<^verbatim>\<open>__buildFromItems\<close>; an item of no listed shape gives
  \<^verbatim>\<open>undefined\<close>, which the filter after the \<^verbatim>\<open>map\<close> drops like an empty array.\<close>

definition digestItem ::
  "env \<Rightarrow> store \<Rightarrow> string \<Rightarrow> jsval \<Rightarrow> state \<Rightarrow> fault + (jsval list \<times> state)" where
  "digestItem E st baseDir item s =
     (case isComponent st item of
        Inl e \<Rightarrow> Inl e
      | Inr True \<Rightarrow>
         (case componentFactory st item of
            Inl e \<Rightarrow> Inl e
          | Inr i \<Rightarrow> Inr ([i], s))
      | Inr False \<Rightarrow>
         (if typeof item = ''object'' then
            (case object_values st item of
               Inl e \<Rightarrow> Inl e
             | Inr vs \<Rightarrow>
                (case filter_isComponent st vs of
                   Inl e \<Rightarrow> Inl e
                 | Inr cs \<Rightarrow>
                    (case map_componentFactory st cs of
                       Inl e \<Rightarrow> Inl e
                     | Inr is \<Rightarrow> Inr (is, s))))
          else if typeof item = ''string'' then
            (case item of
               JStr path \<Rightarrow> digestPath E st (env_fs E) (fullPath baseDir path) False s
             | _ \<Rightarrow> Inr ([], s))
          else Inr ([], s)))"

fun digestItems ::
  "env \<Rightarrow> store \<Rightarrow> string \<Rightarrow> jsval list \<Rightarrow> state \<Rightarrow> fault + (jsval list list \<times> state)" where
  "digestItems E st baseDir [] s = Inr ([], s)"
| "digestItems E st baseDir (item # items) s =
     (case digestItem E st baseDir item s of
        Inl e \<Rightarrow> Inl e
      | Inr (r, s') \<Rightarrow>
         (case digestItems E st baseDir items s' of
            Inl e \<Rightarrow> Inl e
          | Inr (rs, s'') \<Rightarrow> Inr (r # rs, s'')))"

text \<open>\<^verbatim>\<open>__buildFromItems(list, baseDir)\<close> and \<^verbatim>\<open>ComponentRegistry.create(components, cwd)\<close>.\<close>

definition buildFromItems ::
  "env \<Rightarrow> store \<Rightarrow> jsval list \<Rightarrow> string \<Rightarrow> state \<Rightarrow> fault + state" where
  "buildFromItems E st list baseDir s =
     (case digestItems E st baseDir list s of
        Inl e \<Rightarrow> Inl e
      | Inr (results, s') \<Rightarrow>
         register_all st (concat (filter (\<lambda>r. r \<noteq> []) results)) s')"

definition create ::
  "env \<Rightarrow> store \<Rightarrow> jsval list \<Rightarrow> string \<Rightarrow> logentry list \<Rightarrow> fault + state" where
  "create E st components cwd log =
     buildFromItems E st components cwd (new_registry None, log)"

section \<open>Notions used in the statements\<close>

text \<open>
  A registry is shallow when each of its collections has no collection of its own and was
  constructed with a parent.
\<close>

definition shallow :: "registry \<Rightarrow> bool" where
  "shallow this =
     (\<forall>child \<in> snd ` set (r_collections this). r_collections child = [] \<and> r_parent child \<noteq> None)"


text \<open>
  For the store: a value is allocated when it is no reference or a reference into the
  store; the components of a map are well stored when they and the descriptors they
  return are allocated; a store extends another when it still holds the objects of that
  one, unchanged, at their addresses. \<open>descriptors\<close> lists what \<^verbatim>\<open>metadata()\<close> returns
  for the components of a map.
\<close>

fun allocated :: "store \<Rightarrow> jsval \<Rightarrow> bool" where
  "allocated st (JRef a) = (a < length st)"
| "allocated st v = True"

fun descriptors :: "store \<Rightarrow> (jsval \<times> jsval) list \<Rightarrow> fault + jsval list" where
  "descriptors st [] = Inr []"
| "descriptors st ((name, component) # cs) =
     (case call_method st component ''metadata'' of
        Inl e \<Rightarrow> Inl e
      | Inr m \<Rightarrow> (case descriptors st cs of Inl e \<Rightarrow> Inl e | Inr ms \<Rightarrow> Inr (m # ms)))"

definition well_stored :: "store \<Rightarrow> (jsval \<times> jsval) list \<Rightarrow> bool" where
  "well_stored st cs =
     (\<forall>c \<in> snd ` set cs. allocated st c \<and>
        (\<forall>m. call_method st c ''metadata'' = Inr m \<longrightarrow> allocated st m))"

definition extends :: "store \<Rightarrow> store \<Rightarrow> bool" where
  "extends st st' = (length st \<le> length st' \<and> take (length st) st' = st)"

text \<open>
  For \<^verbatim>\<open>merge\<close>: \<open>registered st cs al\<close> is the component map after the components
  \<open>cs\<close> have registered in turn into the map \<open>al\<close>, \<open>with_components\<close> is the node with
  that map, and a node has received the components of a source registry when each of
  them has a name whose entry is the component, unless the node held the name before, in
  which case the entry is the one it held.
\<close>

fun registered :: "store \<Rightarrow> jsval list \<Rightarrow> (jsval \<times> jsval) list \<Rightarrow> (jsval \<times> jsval) list" where
  "registered st [] al = al"
| "registered st (c # cs) al =
     (case metadata_name st c of
        Inl e \<Rightarrow> al
      | Inr n \<Rightarrow> registered st cs (if map_of al n \<noteq> None then al else al @ [(n, c)]))"

definition with_components :: "store \<Rightarrow> jsval list \<Rightarrow> registry \<Rightarrow> registry" where
  "with_components st cs node =
     Registry (r_parent node) (r_collections node) (registered st cs (r_components node))"

definition received :: "store \<Rightarrow> registry \<Rightarrow> registry \<Rightarrow> registry \<Rightarrow> bool" where
  "received st source node node' =
     (\<forall>c \<in> snd ` set (getComponents source).
        \<exists>n. metadata_name st c = Inr n \<and>
            getComponent node' n = (if hasComponent node n then getComponent node n else Some c))"

section \<open>Values for concrete runs\<close>

text \<open>
  A descriptor with a name; a legacy component, an object that exposes \<^verbatim>\<open>metadata\<close> and
  \<^verbatim>\<open>invoke\<close> itself; a component class, whose prototype exposes them; a legacy component
  whose \<^verbatim>\<open>metadata\<close> returns the descriptor it keeps at an address of the store.
\<close>

definition descriptor :: "string \<Rightarrow> jsval" where
  "descriptor n = JObj [(''name'', JStr n)]"

definition legacy_component :: "string \<Rightarrow> jsval" where
  "legacy_component n =
     JObj [(''metadata'', JFun ''metadata'' None (Inr (descriptor n))),
           (''invoke'', JFun ''invoke'' None (Inr JUndefined))]"

definition class_component :: "string \<Rightarrow> jsval" where
  "class_component n = JFun ''Component'' (Some (legacy_component n)) (Inr JUndefined)"

text \<open>The instance of a component class, and a legacy component whose \<^verbatim>\<open>constructor\<close>
  is \<^verbatim>\<open>undefined\<close>.\<close>

definition component_instance :: "string \<Rightarrow> jsval" where
  "component_instance n =
     JObj [(''metadata'', JFun ''metadata'' None (Inr (descriptor n))),
           (''invoke'', JFun ''invoke'' None (Inr JUndefined)),
           (''constructor'', class_component n)]"

definition bare_component :: "string \<Rightarrow> jsval" where
  "bare_component n =
     JObj [(''metadata'', JFun ''metadata'' None (Inr (descriptor n))),
           (''invoke'', JFun ''invoke'' None (Inr JUndefined)),
           (''constructor'', JUndefined)]"


text \<open>A legacy component with one more property, which tells it from
  \<open>legacy_component\<close> of the same name.\<close>

definition tagged_component :: "string \<Rightarrow> jsval" where
  "tagged_component n =
     JObj [(''metadata'', JFun ''metadata'' None (Inr (descriptor n))),
           (''invoke'', JFun ''invoke'' None (Inr JUndefined)),
           (''tag'', JBool True)]"

text \<open>
  A registry with a component \<open>x\<close> and the collections \<open>c1\<close>, empty, and \<open>c2\<close>, with a
  component \<open>y\<close>; a source registry with another component named \<open>x\<close> and a component
  \<open>z\<close>; and the first registry after the second has been merged into it recursively.
\<close>

definition example_target :: registry where
  "example_target =
     Registry None
       [(''c1'', Registry (Some (Registry None [] [])) [] []),
        (''c2'', Registry (Some (Registry None [] [])) [] [(JStr ''y'', legacy_component ''y'')])]
       [(JStr ''x'', legacy_component ''x'')]"

definition example_source :: registry where
  "example_source =
     Registry None []
       [(JStr ''x'', tagged_component ''x''), (JStr ''z'', legacy_component ''z'')]"

definition example_merged :: registry where
  "example_merged =
     Registry None
       [(''c1'', Registry (Some (Registry None [] [])) []
           [(JStr ''x'', tagged_component ''x''), (JStr ''z'', legacy_component ''z'')]),
        (''c2'', Registry (Some (Registry None [] [])) []
           [(JStr ''y'', legacy_component ''y''), (JStr ''x'', tagged_component ''x''),
            (JStr ''z'', legacy_component ''z'')])]
       [(JStr ''x'', legacy_component ''x''), (JStr ''z'', legacy_component ''z'')]"

text \<open>
  An environment whose file system holds nothing, and the environment of a process in
  \<^verbatim>\<open>/app\<close> whose file system is a tree: a path is resolved against the directory of the
  process and followed from the root. The sort leaves a listing as it is.
\<close>

definition empty_env :: env where
  "empty_env = \<lparr>env_fs = (\<lambda>p. None), env_cwd = ''/app'', env_sort = map fst\<rparr>"

fun fs_lookup :: "fsnode \<Rightarrow> string list \<Rightarrow> fsnode option" where
  "fs_lookup n [] = Some n"
| "fs_lookup (Dir es) (s # ss) = (case map_of es s of None \<Rightarrow> None | Some c \<Rightarrow> fs_lookup c ss)"
| "fs_lookup n (s # ss) = None"

definition tree_env :: "fsnode \<Rightarrow> env" where
  "tree_env root =
     \<lparr>env_fs = (\<lambda>p. fs_lookup root (filter (\<lambda>s. s \<noteq> []) (split_path (path_resolve ''/app'' p)))),
      env_cwd = ''/app'', env_sort = map fst\<rparr>"

text \<open>
  \<^verbatim>\<open>/app/components\<close> with a component file, a file that raises while it loads, and a
  subdirectory that holds a component file and a directory of its own; and
  \<^verbatim>\<open>/app/components\<close> with only a file that raises and a component file.
\<close>

definition two_files_root :: fsnode where
  "two_files_root =
     Dir [(''app'', Dir [(''components'', Dir
       [(''bad.js'', File (Inl (Raised ''boom''))),
        (''good.js'', File (Inr (class_component ''g'')))])])]"

definition example_root :: fsnode where
  "example_root =
     Dir [(''app'', Dir [(''components'', Dir
       [(''a.js'', File (Inr (class_component ''a''))),
        (''bad.js'', File (Inl (Raised ''boom''))),
        (''sub1'', Dir
          [(''b.js'', File (Inr (legacy_component ''b''))),
           (''deep'', Dir [(''c.js'', File (Inr (class_component ''c'')))])])])])]"

section \<open>Reading members\<close>

lemma object_member_Nil [simp]:
  "object_member [] k = (if k = ''constructor'' then object_constructor else JUndefined)"
  by (simp add: object_member_def)

lemma object_member_Cons [simp]:
  "object_member ((k', v) # ps) k = (if k' = k then v else object_member ps k)"
  by (simp add: object_member_def)

section \<open>Registration\<close>

lemma update_absent: "map_of al k = None \<Longrightarrow> AList.update k v al = al @ [(k, v)]"
  by (induction al) (auto split: if_splits)

lemma register_duplicate_eq:
  "metadata_name st c = Inr n \<Longrightarrow> hasComponent this n \<Longrightarrow> constructor_name st c = Inr cn \<Longrightarrow>
   register st c (this, log) = Inr (this, log @ [Warn_duplicate n cn])"
  by (simp add: register_def)

lemma register_fresh_eq:
  "metadata_name st c = Inr n \<Longrightarrow> \<not> hasComponent this n \<Longrightarrow>
   register st c (this, log) =
     Inr (Registry (r_parent this) (r_collections this) (r_components this @ [(n, c)]), log)"
  by (simp add: register_def hasComponent_def update_absent)

lemma metadata_name_legacy: "metadata_name st (legacy_component n) = Inr (JStr n)"
  by (simp add: metadata_name_def legacy_component_def call_method_def descriptor_def)

lemma metadata_name_bare: "metadata_name st (bare_component n) = Inr (JStr n)"
  by (simp add: metadata_name_def bare_component_def call_method_def descriptor_def)

lemma constructor_name_legacy: "constructor_name st (legacy_component n) = Inr (JStr ''Object'')"
  by (simp add: constructor_name_def legacy_component_def object_constructor_def)

lemma constructor_name_instance:
  "constructor_name st (component_instance n) = Inr (JStr ''Component'')"
  by (simp add: constructor_name_def component_instance_def class_component_def)

lemma constructor_name_bare: "constructor_name st (bare_component n) = Inr e \<Longrightarrow> False"
  by (simp add: constructor_name_def bare_component_def)

text \<open>
  Where the name of the constructor of the second component can be read, the first
  registration of a name wins: let \<open>a\<close> and \<open>b\<close> be two components whose metadata name is
  \<open>x\<close>, and let \<open>a\<close> be registered into a node that holds no \<open>x\<close> yet. Then the node holds
  \<open>a\<close> under \<open>x\<close> and has grown by one entry; every later registration of \<open>b\<close> leaves the
  node as it is and adds one warning that names \<open>x\<close> and the constructor of \<open>b\<close>.
\<close>

lemma register_duplicate_warns:
  assumes a: "metadata_name st a = Inr x"
      and b: "metadata_name st b = Inr x"
      and ctor: "constructor_name st b = Inr cn"
      and first: "\<not> hasComponent this x"
  shows "\<exists>this'. register st a (this, log) = Inr (this', log)
           \<and> getComponent this' x = Some a
           \<and> (\<forall>log'. register st b (this', log') = Inr (this', log' @ [Warn_duplicate x cn]))
           \<and> length (getComponents this') = Suc (length (getComponents this))"
proof -
  let ?this' = "Registry (r_parent this) (r_collections this) (r_components this @ [(x, a)])"
  have 1: "register st a (this, log) = Inr (?this', log)"
    using a first by (rule register_fresh_eq)
  have absent: "map_of (r_components this) x = None"
    using first by (simp add: hasComponent_def)
  have 2: "getComponent ?this' x = Some a"
    using absent by (simp add: getComponent_def map_add_def)
  have has: "hasComponent ?this' x"
    using 2 by (simp add: hasComponent_def getComponent_def)
  have 3: "register st b (?this', log') = Inr (?this', log' @ [Warn_duplicate x cn])" for log'
    using b has ctor by (rule register_duplicate_eq)
  have 4: "length (getComponents ?this') = Suc (length (getComponents this))"
    by (simp add: getComponents_def)
  from 1 2 3 4 show ?thesis by blast
qed

text \<open>
  C1. The legacy component \<open>bare_component ''x''\<close> passes the capability test and reports
  the name \<open>x\<close>; its \<^verbatim>\<open>constructor\<close> is \<^verbatim>\<open>undefined\<close>. Registered into a node that
  already holds a component under \<open>x\<close>, it is a duplicate, and \<^verbatim>\<open>__register\<close> raises a
  \<^verbatim>\<open>TypeError\<close> while it builds the message of the warning, at
  \<^verbatim>\<open>component['constructor'].name\<close>: no warning is recorded.
\<close>

theorem register_duplicate_faults:
  "register st (legacy_component ''x'') (new_registry None, log)
     = Inr (Registry None [] [(JStr ''x'', legacy_component ''x'')], log)
   \<and> isComponent st (bare_component ''x'') = Inr True
   \<and> metadata_name st (bare_component ''x'') = Inr (JStr ''x'')
   \<and> register st (bare_component ''x'')
        (Registry None [] [(JStr ''x'', legacy_component ''x'')], log) = Inl TypeError"
proof -
  have 1: "register st (legacy_component ''x'') (new_registry None, log)
             = Inr (Registry None [] [(JStr ''x'', legacy_component ''x'')], log)"
    by (simp add: register_def metadata_name_legacy hasComponent_def new_registry_def)
  have 2: "isComponent st (bare_component ''x'') = Inr True"
    by (simp add: isComponent_def isComponent_class_def isComponent_legacy_def isType_def
          bare_component_def)
  have 3: "constructor_name st (bare_component ''x'') = Inl TypeError"
    by (simp add: constructor_name_def bare_component_def)
  have 4: "register st (bare_component ''x'')
             (Registry None [] [(JStr ''x'', legacy_component ''x'')], log) = Inl TypeError"
    by (simp add: register_def metadata_name_bare hasComponent_def 3)
  from 1 2 metadata_name_bare 4 show ?thesis by blast
qed

section \<open>The capability test on null\<close>

lemma isComponent_JNull: "isComponent st JNull = Inl TypeError"
  by (simp add: isComponent_def isComponent_class_def isComponent_legacy_def isType_def)

lemma isComponent_JStr: "isComponent st (JStr s) = Inr False"
  by (simp add: isComponent_def isComponent_class_def isComponent_legacy_def isType_def)

lemma isComponent_class_component: "isComponent st (class_component n) = Inr True"
  by (simp add: isComponent_def isComponent_class_def isType_def class_component_def
        legacy_component_def)

lemma isComponent_legacy_component: "isComponent st (legacy_component n) = Inr True"
  by (simp add: isComponent_def isComponent_class_def isComponent_legacy_def isType_def
        legacy_component_def)

text \<open>
  C4. On \<^verbatim>\<open>null\<close> the capability test does not answer: \<^verbatim>\<open>typeof null\<close> is
  \<^verbatim>\<open>'object'\<close>, so the second disjunct goes on to read \<^verbatim>\<open>null.metadata\<close>, which raises
  a \<^verbatim>\<open>TypeError\<close>.
\<close>

theorem isComponent_null_faults: "isComponent st JNull = Inl TypeError"
  by (simp add: isComponent_def isComponent_class_def isComponent_legacy_def isType_def)

section \<open>The module resolver\<close>

lemma resolveComponents_load_fault:
  "resolveComponents st (Inl e) log = ([], log @ [Error_caught e])"
  by (simp add: resolveComponents_def resolveComponents_try_def)

lemma resolveComponents_component:
  "isComponent st m = Inr True \<Longrightarrow> resolveComponents st (Inr m) log = ([m], log)"
  by (simp add: resolveComponents_def resolveComponents_try_def)

text \<open>
  Where the capability test answers on the exported value and on each of its property
  values, the resolver yields the exported value when it passes, and otherwise the
  property values that pass, in their order.
\<close>

lemma filter_isComponent_answers:
  "\<forall>v \<in> set vs. \<exists>b. isComponent st v = Inr b \<Longrightarrow>
   filter_isComponent st vs = Inr (filter (\<lambda>v. isComponent st v = Inr True) vs)"
  by (induction vs) auto

lemma resolveComponents_subset:
  assumes "isComponent st m = Inr False"
      and "object_values st m = Inr vs"
      and "\<forall>v \<in> set vs. \<exists>b. isComponent st v = Inr b"
  shows "resolveComponents st (Inr m) log = (filter (\<lambda>v. isComponent st v = Inr True) vs, log)"
  using assms
  by (simp add: resolveComponents_def resolveComponents_try_def filter_isComponent_answers)

text \<open>The module of the spec's example, with two components and a string, resolves to the
  two components.\<close>

lemma resolveComponents_multi_export:
  "resolveComponents st
     (Inr (JObj [(''a'', class_component ''a''), (''b'', legacy_component ''b''),
                 (''c'', JStr ''not a component'')])) log
     = ([class_component ''a'', legacy_component ''b''], log)"
proof -
  let ?m = "JObj [(''a'', class_component ''a''), (''b'', legacy_component ''b''),
                  (''c'', JStr ''not a component'')]"
  have m: "isComponent st ?m = Inr False"
    by (simp add: isComponent_def isComponent_class_def isComponent_legacy_def isType_def)
  show ?thesis
    by (simp add: resolveComponents_def resolveComponents_try_def m
          isComponent_class_component isComponent_legacy_component isComponent_JStr)
qed

text \<open>
  C8. A module that exports \<^verbatim>\<open>{ a: <component class>, b: null }\<close> loads, and one of its
  two property values passes the capability test; the resolver yields no component,
  because the test raises on \<^verbatim>\<open>null\<close> inside the \<^verbatim>\<open>try\<close> and the \<^verbatim>\<open>catch\<close> returns the
  empty array.
\<close>

theorem resolveComponents_null_property:
  "resolveComponents st (Inr (JObj [(''a'', class_component ''a''), (''b'', JNull)])) log
     = ([], log @ [Error_caught TypeError])"
proof -
  let ?m = "JObj [(''a'', class_component ''a''), (''b'', JNull)]"
  have m: "isComponent st ?m = Inr False"
    by (simp add: isComponent_def isComponent_class_def isComponent_legacy_def isType_def)
  show ?thesis
    by (simp add: resolveComponents_def resolveComponents_try_def m
          isComponent_class_component isComponent_JNull)
qed

section \<open>A component directory that does not exist\<close>

text \<open>
  C6. When nothing exists at the resolved component directory, \<^verbatim>\<open>assemble\<close> returns,
  without a fault, the new registry with no component and no collection, and the log has
  one more entry, the error that names the directory; \<^verbatim>\<open>isValid()\<close> is false on that
  registry. On every registry \<^verbatim>\<open>isValid()\<close> is true exactly when the node has a component
  or a collection.
\<close>

theorem assemble_missing_directory:
  assumes "env_fs E (path_resolve (env_cwd E) (fullPath cwd componentDir)) = None"
  shows "assemble E st parent componentDir cwd log
           = Inr (Registry parent [] [], log @ [Error_invalid_dir (fullPath cwd componentDir)])
         \<and> \<not> isValid (Registry parent [] [])
         \<and> (isValid r \<longleftrightarrow> (getComponents r \<noteq> [] \<or> r_collections r \<noteq> []))"
  using assms
  by (simp add: assemble_def buildFromFs_def new_registry_def isValid_def getComponents_def)

theorem assemble_missing_directory_witness:
  "env_fs empty_env (path_resolve (env_cwd empty_env) (fullPath ''/app'' ''components'')) = None
   \<and> assemble empty_env [] None ''components'' ''/app'' []
       = Inr (Registry None [] [], [Error_invalid_dir ''/app/components''])
   \<and> \<not> isValid (Registry None [] [])
   \<and> (isValid (Registry None [] [(JStr ''x'', legacy_component ''x'')])
        \<longleftrightarrow> (getComponents (Registry None [] [(JStr ''x'', legacy_component ''x'')]) \<noteq> []
             \<or> r_collections (Registry None [] [(JStr ''x'', legacy_component ''x'')]) \<noteq> []))"
proof -
  have h: "env_fs empty_env (path_resolve (env_cwd empty_env) (fullPath ''/app'' ''components''))
             = None"
    by (simp add: empty_env_def)
  have p: "fullPath ''/app'' ''components'' = ''/app/components''"
    by (simp add: fullPath_def indexOf_def path_join_def path_normalize_def)
  show ?thesis
    using h assemble_missing_directory [OF h, of "[]" None "[]"
            "Registry None [] [(JStr ''x'', legacy_component ''x'')]"]
    by (simp add: p)
qed

section \<open>Scanning with grouping disabled\<close>

text \<open>
  With \<open>withCollections\<close> false the methods are the functions of the scan without
  collections, and \<^verbatim>\<open>assemble\<close> with a parent is the call that \<^verbatim>\<open>_addCollection\<close>
  makes.
\<close>

lemma digestPath_disabled:
  "digestPath E st (map_of children) filePath False (this, log) =
     (case digestPath_flat E st children filePath log of
        Inl e \<Rightarrow> Inl e
      | Inr (cs, log') \<Rightarrow> Inr (cs, (this, log')))"
  by (simp add: digestPath_def split: sum.splits prod.splits fsnode.splits)

lemma digestEach_disabled:
  "digestEach E st children False files (this, log) =
     (case digestEach_flat E st children files log of
        Inl e \<Rightarrow> Inl e
      | Inr (rs, log') \<Rightarrow> Inr (rs, (this, log')))"
proof (induction files arbitrary: log)
  case Nil
  show ?case by simp
next
  case (Cons f files)
  show ?case
  proof (cases "digestPath_flat E st children f log")
    case (Inl e)
    then show ?thesis by (simp add: digestPath_disabled del: digestPath_flat.simps)
  next
    case (Inr r)
    obtain cs log1 where r: "r = (cs, log1)" by (cases r)
    show ?thesis
      using Cons.IH [of log1]
      by (simp add: digestPath_disabled Inr r del: digestPath_flat.simps split: sum.splits)
  qed
qed

lemma scanDir_disabled:
  "scanDir E st dir es False (this, log) =
     (case scanDir_flat E st dir es log of
        Inl e \<Rightarrow> Inl e
      | Inr (cs, log') \<Rightarrow> Inr (cs, (this, log')))"
  by (simp add: scanDir_def digestEach_disabled split: sum.splits)

lemma buildFromFs_disabled:
  "buildFromFs E st baseDir False s = buildFromFs_flat E st baseDir s"
  by (cases s)
     (simp add: buildFromFs_def buildFromFs_flat_def scanDir_disabled Let_def
        del: scanDir_flat.simps split: option.splits fsnode.splits sum.splits)

lemma assemble_with_parent:
  "assemble E st (Some parent) componentDir cwd log = assemble_nested E st parent componentDir cwd log"
  by (simp add: assemble_def assemble_nested_def buildFromFs_disabled)

section \<open>The depth of the collection hierarchy\<close>

lemma register_frame:
  "register st c (this, log) = Inr (this', log') \<Longrightarrow>
   r_collections this' = r_collections this \<and> r_parent this' = r_parent this"
  by (auto simp: register_def split: sum.splits if_splits)

lemma register_all_frame:
  "register_all st cs (this, log) = Inr (this', log') \<Longrightarrow>
   r_collections this' = r_collections this \<and> r_parent this' = r_parent this"
proof (induction cs arbitrary: this log)
  case Nil
  then show ?case by simp
next
  case (Cons c cs)
  from Cons.prems obtain this1 log1 where 1: "register st c (this, log) = Inr (this1, log1)"
    and 2: "register_all st cs (this1, log1) = Inr (this', log')"
    by (auto split: sum.splits)
  show ?case using register_frame [OF 1] Cons.IH [OF 2] by simp
qed

lemma buildFromFs_flat_frame:
  "buildFromFs_flat E st baseDir (this, log) = Inr (this', log') \<Longrightarrow>
   r_collections this' = r_collections this \<and> r_parent this' = r_parent this"
  by (auto simp: buildFromFs_flat_def Let_def split: option.splits fsnode.splits sum.splits
        dest: register_all_frame)

lemma set_update_subset: "set (AList.update k v al) \<subseteq> insert (k, v) (set al)"
  by (induction al) auto

lemma addCollection_result:
  assumes "addCollection E st subdir (this, log) = Inr (this', log')"
  obtains child where
    "buildFromFs_flat E st (fullPath (env_cwd E) subdir) (new_registry (Some this), log)
       = Inr (child, log')"
    "this' = Registry (r_parent this)
               (AList.update (basename subdir) child (r_collections this)) (r_components this)"
proof (cases "buildFromFs_flat E st (fullPath (env_cwd E) subdir) (new_registry (Some this), log)")
  case (Inl e)
  with assms show ?thesis by (simp add: addCollection_def assemble_nested_def)
next
  case (Inr s)
  obtain child l where s: "s = (child, l)" by (cases s)
  from assms Inr s that [of child] show ?thesis
    by (simp add: addCollection_def assemble_nested_def)
qed

lemma addCollection_shallow:
  assumes "addCollection E st subdir (this, log) = Inr (this', log')" and "shallow this"
  shows "shallow this' \<and> r_parent this' = r_parent this"
proof -
  from assms(1) obtain child where
    child: "buildFromFs_flat E st (fullPath (env_cwd E) subdir) (new_registry (Some this), log)
              = Inr (child, log')"
    and this': "this' = Registry (r_parent this)
                  (AList.update (basename subdir) child (r_collections this)) (r_components this)"
    by (rule addCollection_result)
  have c: "r_collections child = [] \<and> r_parent child \<noteq> None"
    using buildFromFs_flat_frame [OF child] by (simp add: new_registry_def)
  have rc: "r_collections this' = AList.update (basename subdir) child (r_collections this)"
    and rp: "r_parent this' = r_parent this"
    by (simp_all add: this')
  have "r_collections x = [] \<and> r_parent x \<noteq> None" if "x \<in> snd ` set (r_collections this')" for x
  proof -
    from that obtain k where "(k, x) \<in> set (r_collections this')"
      by force
    then have "(k, x) = (basename subdir, child) \<or> (k, x) \<in> set (r_collections this)"
      using set_update_subset [of "basename subdir" child "r_collections this"]
      unfolding rc by blast
    then show ?thesis
    proof
      assume "(k, x) = (basename subdir, child)"
      with c show ?thesis by simp
    next
      assume "(k, x) \<in> set (r_collections this)"
      then have "x \<in> snd ` set (r_collections this)" by force
      with assms(2) show ?thesis unfolding shallow_def by blast
    qed
  qed
  then have "shallow this'" unfolding shallow_def by blast
  with rp show ?thesis by blast
qed

lemma digestPath_flat_frame:
  assumes "digestPath E st stat filePath False (this, log) = Inr (cs, (this', log'))"
  shows "this' = this"
proof (cases "stat_js stat filePath")
  case (Inl e)
  with assms show ?thesis by (simp add: digestPath_def)
next
  case (Inr fn)
  obtain fp n where fn: "fn = (fp, n)" by (cases fn)
  show ?thesis
  proof (cases n)
    case (File required)
    with assms Inr fn show ?thesis
      by (simp add: digestPath_def split: prod.splits sum.splits)
  next
    case (Dir es)
    with assms Inr fn show ?thesis
      by (simp add: digestPath_def split: prod.splits sum.splits)
  next
    case Special
    with assms Inr fn show ?thesis by (simp add: digestPath_def)
  qed
qed

lemma digestPath_shallow:
  assumes "digestPath E st stat filePath wc (this, log) = Inr (cs, (this', log'))"
      and "shallow this"
  shows "shallow this' \<and> r_parent this' = r_parent this \<and> (\<not> wc \<longrightarrow> this' = this)"
proof (cases wc)
  case False
  with assms digestPath_flat_frame [of E st stat filePath this log cs this' log']
  show ?thesis by simp
next
  case True
  show ?thesis
  proof (cases "stat_js stat filePath")
    case (Inl e)
    with assms show ?thesis by (simp add: digestPath_def)
  next
    case (Inr fn)
    obtain fp n where fn: "fn = (fp, n)" by (cases fn)
    show ?thesis
    proof (cases n)
      case (File required)
      with assms Inr fn show ?thesis
        by (auto simp: digestPath_def split: prod.splits sum.splits)
    next
      case (Dir es)
      with assms(1) Inr fn True have "addCollection E st fp (this, log) = Inr (this', log')"
        by (simp add: digestPath_def split: sum.splits)
      from addCollection_shallow [OF this assms(2)] True show ?thesis by simp
    next
      case Special
      with assms Inr fn show ?thesis by (simp add: digestPath_def)
    qed
  qed
qed

lemma digestEach_shallow:
  "digestEach E st children wc files (this, log) = Inr (rs, (this', log')) \<Longrightarrow> shallow this \<Longrightarrow>
   shallow this' \<and> r_parent this' = r_parent this \<and> (\<not> wc \<longrightarrow> this' = this)"
proof (induction files arbitrary: this log rs)
  case Nil
  then show ?case by simp
next
  case (Cons f files)
  from Cons.prems(1) obtain r this1 log1 rs1 where
    1: "digestPath E st (map_of children) f wc (this, log) = Inr (r, (this1, log1))"
    and 2: "digestEach E st children wc files (this1, log1) = Inr (rs1, (this', log'))"
    by (auto split: sum.splits)
  from digestPath_shallow [OF 1 Cons.prems(2)] Cons.IH [OF 2] show ?case by simp
qed

lemma shallow_collections: "r_collections a = r_collections b \<Longrightarrow> shallow a = shallow b"
  by (simp add: shallow_def)

lemma buildFromFs_shallow:
  assumes "buildFromFs E st baseDir wc (this, log) = Inr (this', log')" and "shallow this"
  shows "shallow this' \<and> r_parent this' = r_parent this
         \<and> (\<not> wc \<longrightarrow> r_collections this' = r_collections this)"
proof (cases "env_fs E (path_resolve (env_cwd E) baseDir)")
  case None
  with assms show ?thesis by (simp add: buildFromFs_def)
next
  case (Some n)
  with assms(1) obtain es rs this1 log1 where
    1: "digestEach E st (listing (path_resolve (env_cwd E) baseDir) es) wc
          (env_sort E (map (\<lambda>e. (fst e, isDirectory (snd e)))
             (listing (path_resolve (env_cwd E) baseDir) es))) (this, log)
        = Inr (rs, (this1, log1))"
    and 2: "register_all st (concat rs) (this1, log1) = Inr (this', log')"
    by (auto simp: buildFromFs_def scanDir_def Let_def split: fsnode.splits sum.splits)
  from digestEach_shallow [OF 1 assms(2)] register_all_frame [OF 2]
  show ?thesis using shallow_collections [of this' this1] by auto
qed

lemma digestItem_frame:
  assumes "digestItem E st baseDir item (this, log) = Inr (r, (this', log'))"
  shows "this' = this"
proof (cases "isComponent st item")
  case (Inl e)
  with assms show ?thesis by (simp add: digestItem_def)
next
  case (Inr b)
  show ?thesis
  proof (cases b)
    case True
    with assms Inr show ?thesis by (simp add: digestItem_def split: sum.splits)
  next
    case False
    show ?thesis
    proof (cases "typeof item = ''object''")
      case True
      with assms Inr False show ?thesis by (simp add: digestItem_def split: sum.splits)
    next
      case no: False
      show ?thesis
      proof (cases item)
        case (JStr path)
        with assms Inr False
        have "digestPath E st (env_fs E) (fullPath baseDir path) False (this, log)
                = Inr (r, (this', log'))"
          by (simp add: digestItem_def)
        then show ?thesis by (rule digestPath_flat_frame)
      qed (use assms Inr False no in \<open>simp_all add: digestItem_def\<close>)
    qed
  qed
qed

lemma digestItems_frame:
  "digestItems E st baseDir items (this, log) = Inr (rs, (this', log')) \<Longrightarrow> this' = this"
proof (induction items arbitrary: log rs)
  case Nil
  then show ?case by simp
next
  case (Cons i items)
  from Cons.prems obtain r this1 log1 rs1 where
    1: "digestItem E st baseDir i (this, log) = Inr (r, (this1, log1))"
    and 2: "digestItems E st baseDir items (this1, log1) = Inr (rs1, (this', log'))"
    by (auto split: sum.splits)
  from digestItem_frame [OF 1] Cons.IH 2 show ?case by simp
qed

lemma create_frame:
  assumes "create E st items cwd log = Inr (reg, log')"
  shows "r_collections reg = [] \<and> r_parent reg = None"
  using assms
  by (auto simp: create_def buildFromItems_def new_registry_def split: sum.splits
        dest!: digestItems_frame register_all_frame)

lemma addCollection_child:
  assumes "addCollection E st subdir (this, log) = Inr (this', log')"
  shows "\<exists>child. map_of (r_collections this') (basename subdir) = Some child
           \<and> r_parent child = Some this \<and> r_collections child = []"
proof -
  from assms obtain child where
    child: "buildFromFs_flat E st (fullPath (env_cwd E) subdir) (new_registry (Some this), log)
              = Inr (child, log')"
    and this': "this' = Registry (r_parent this)
                  (AList.update (basename subdir) child (r_collections this)) (r_components this)"
    by (rule addCollection_result)
  show ?thesis
    using buildFromFs_flat_frame [OF child] by (simp add: this' update_conv' new_registry_def)
qed

text \<open>
  C2. Whenever \<^verbatim>\<open>assemble\<close> returns a registry, the registry has the parent it was
  given, each of its collections has no collection of its own and was constructed with a
  parent, and the registry has no collection at all when its own parent is not
  \<^verbatim>\<open>null\<close>: grouping is on only for the parent \<^verbatim>\<open>null\<close>. Whenever \<^verbatim>\<open>create\<close> returns a
  registry, it has no collection. Whenever \<^verbatim>\<open>_addCollection\<close> returns, the collections
  hold, under the base name of the subdirectory, a child that was constructed with the
  current registry as its parent and has no collection.
\<close>

theorem collections_two_levels:
  "(assemble E st parent componentDir cwd log = Inr (reg, log') \<longrightarrow>
      shallow reg \<and> r_parent reg = parent \<and> (parent \<noteq> None \<longrightarrow> r_collections reg = []))
   \<and> (create E st items cwd log = Inr (reg', log'') \<longrightarrow> r_collections reg' = [])
   \<and> (addCollection E st subdir (this, log) = Inr (this', log')
        \<longrightarrow> (\<exists>child. map_of (r_collections this') (basename subdir) = Some child
                \<and> r_parent child = Some this \<and> r_collections child = []))"
proof (intro conjI impI)
  assume a: "assemble E st parent componentDir cwd log = Inr (reg, log')"
  have s: "shallow (new_registry parent)" by (simp add: shallow_def new_registry_def)
  from a have b: "buildFromFs E st (fullPath cwd componentDir) (parent = None)
                    (new_registry parent, log) = Inr (reg, log')"
    by (simp add: assemble_def)
  from buildFromFs_shallow [OF b s]
  show "shallow reg" and "r_parent reg = parent" and "parent \<noteq> None \<Longrightarrow> r_collections reg = []"
    by (simp_all add: new_registry_def)
next
  assume "create E st items cwd log = Inr (reg', log'')"
  then show "r_collections reg' = []" by (simp add: create_frame)
next
  assume "addCollection E st subdir (this, log) = Inr (this', log')"
  then show "\<exists>child. map_of (r_collections this') (basename subdir) = Some child
                \<and> r_parent child = Some this \<and> r_collections child = []"
    by (rule addCollection_child)
qed

theorem collections_two_levels_witness:
  "assemble (tree_env example_root) [] None ''components'' ''/app'' []
     = Inr (Registry None
              [(''sub1'', Registry (Some (Registry None [] [])) []
                 [(JStr ''b'', legacy_component ''b''), (JStr ''c'', component_instance ''c'')])]
              [(JStr ''a'', component_instance ''a'')],
            [Error_caught (Raised ''boom'')])
   \<and> shallow (Registry None
              [(''sub1'', Registry (Some (Registry None [] [])) []
                 [(JStr ''b'', legacy_component ''b''), (JStr ''c'', component_instance ''c'')])]
              [(JStr ''a'', component_instance ''a'')])
   \<and> create (tree_env example_root) [] [class_component ''k'', JStr ''components/sub1''] ''/app'' []
     = Inr (Registry None []
              [(JStr ''k'', component_instance ''k''), (JStr ''b'', legacy_component ''b''),
               (JStr ''c'', component_instance ''c'')], [])
   \<and> addCollection (tree_env example_root) [] ''/app/components/sub1'' (new_registry None, [])
     = Inr (Registry None
              [(''sub1'', Registry (Some (Registry None [] [])) []
                 [(JStr ''b'', legacy_component ''b''), (JStr ''c'', component_instance ''c'')])]
              [], [])
   \<and> (\<exists>child. map_of [(''sub1'', Registry (Some (Registry None [] [])) []
                 [(JStr ''b'', legacy_component ''b''), (JStr ''c'', component_instance ''c'')])]
                 (basename ''/app/components/sub1'') = Some child
         \<and> r_parent child = Some (new_registry None) \<and> r_collections child = [])"
proof -
  let ?child = "Registry (Some (Registry None [] [])) []
                 [(JStr ''b'', legacy_component ''b''), (JStr ''c'', component_instance ''c'')]"
  have a: "assemble (tree_env example_root) [] None ''components'' ''/app'' []
     = Inr (Registry None [(''sub1'', ?child)] [(JStr ''a'', component_instance ''a'')],
            [Error_caught (Raised ''boom'')])"
    by code_simp
  have c: "create (tree_env example_root) [] [class_component ''k'', JStr ''components/sub1''] ''/app'' []
     = Inr (Registry None []
              [(JStr ''k'', component_instance ''k''), (JStr ''b'', legacy_component ''b''),
               (JStr ''c'', component_instance ''c'')], [])"
    by code_simp
  have d: "addCollection (tree_env example_root) [] ''/app/components/sub1'' (new_registry None, [])
     = Inr (Registry None [(''sub1'', ?child)] [], [])"
    by code_simp
  show ?thesis
    using a c d
      collections_two_levels [where E = "tree_env example_root" and st = "[]" and parent = None
        and componentDir = "''components''" and cwd = "''/app''" and log = "[]"
        and reg = "Registry None [(''sub1'', ?child)] [(JStr ''a'', component_instance ''a'')]"
        and log' = "[Error_caught (Raised ''boom'')]"
        and items = "[class_component ''k'', JStr ''components/sub1'']"
        and reg' = "Registry None []
              [(JStr ''k'', component_instance ''k''), (JStr ''b'', legacy_component ''b''),
               (JStr ''c'', component_instance ''c'')]" and log'' = "[]"]
      collections_two_levels [where E = "tree_env example_root" and st = "[]"
        and subdir = "''/app/components/sub1''" and this = "new_registry None" and log = "[]"
        and this' = "Registry None [(''sub1'', ?child)] []" and log' = "[]"]
    by simp
qed

section \<open>Construction from a list\<close>







section \<open>A file that raises while it loads\<close>

lemma mset_two: "mset ys = {#a, b#} \<Longrightarrow> ys = [a, b] \<or> ys = [b, a]"
proof -
  assume h: "mset ys = {#a, b#}"
  then have "size (mset ys) = 2" by simp
  then have "length ys = 2" by simp
  then obtain u v where ys: "ys = [u, v]"
    by (cases ys; cases "tl ys") auto
  with h have "{#u, v#} = {#a, b#}" by simp
  then have "(u = a \<and> v = b) \<or> (u = b \<and> v = a)"
    by (auto simp: add_eq_conv_ex)
  with ys show ?thesis by auto
qed

text \<open>
  C5. The resolver turns a fault of \<^verbatim>\<open>require\<close> into a log entry and no component. Let
  a component directory hold two files that pass the filter of the scan, one that raises
  \<open>e\<close> while it loads and one that exports a valid component \<open>m\<close> (it passes the
  capability test, its instance \<open>i\<close> is built and reports the name \<open>x\<close>), listed in either
  order, and let the sort return a permutation of the paths it is given. Then \<^verbatim>\<open>assemble\<close>
  returns, without a fault, the registry whose only component is \<open>i\<close> under \<open>x\<close>, with no
  collection, and the log has one more entry, the fault \<open>e\<close>.
\<close>

theorem scan_survives_load_failure:
  assumes dir: "env_fs E (path_resolve (env_cwd E) (fullPath cwd componentDir)) = Some (Dir es)"
      and es: "es = [(bad, File (Inl e)), (good, File (Inr m))]
               \<or> es = [(good, File (Inr m)), (bad, File (Inl e))]"
      and names: "keep_name bad \<and> keep_name good"
      and paths: "path_join (path_resolve (env_cwd E) (fullPath cwd componentDir)) bad
                  \<noteq> path_join (path_resolve (env_cwd E) (fullPath cwd componentDir)) good"
      and sort: "\<forall>xs. mset (env_sort E xs) = mset (map fst xs)"
      and valid: "isComponent st m = Inr True \<and> componentFactory st m = Inr i
                  \<and> metadata_name st i = Inr x"
  shows "assemble E st parent componentDir cwd log
           = Inr (Registry parent [] [(x, i)], log @ [Error_caught e])
         \<and> resolveComponents st (Inl e) log = ([], log @ [Error_caught e])"
proof -
  let ?d = "path_resolve (env_cwd E) (fullPath cwd componentDir)"
  let ?pb = "path_join ?d bad" and ?pg = "path_join ?d good"
  let ?wc = "parent = None"
  let ?ch = "listing ?d es"
  let ?new = "new_registry parent"
  have sb: "map_of ?ch ?pb = Some (File (Inl e))" and sg: "map_of ?ch ?pg = Some (File (Inr m))"
    using es names paths by (auto simp: listing_def)
  have db: "digestPath E st (map_of ?ch) ?pb ?wc (this, l) = Inr ([], (this, l @ [Error_caught e]))"
    for this l
    using sb by (simp add: digestPath_def stat_js_def resolveComponents_load_fault)
  have dg: "digestPath E st (map_of ?ch) ?pg ?wc (this, l) = Inr ([i], (this, l))" for this l
    using valid sg by (simp add: digestPath_def stat_js_def resolveComponents_component)
  have keys: "map (\<lambda>e. (fst e, isDirectory (snd e))) ?ch = [(?pb, False), (?pg, False)]
              \<or> map (\<lambda>e. (fst e, isDirectory (snd e))) ?ch = [(?pg, False), (?pb, False)]"
    using es names by (auto simp: listing_def)
  have "mset (env_sort E (map (\<lambda>e. (fst e, isDirectory (snd e))) ?ch)) = {#?pb, ?pg#}"
    using keys sort by auto
  then have sorted: "env_sort E (map (\<lambda>e. (fst e, isDirectory (snd e))) ?ch) = [?pb, ?pg]
                   \<or> env_sort E (map (\<lambda>e. (fst e, isDirectory (snd e))) ?ch) = [?pg, ?pb]"
    by (rule mset_two)
  have scan: "\<exists>rs. digestEach E st ?ch ?wc
                 (env_sort E (map (\<lambda>e. (fst e, isDirectory (snd e))) ?ch)) (?new, log)
               = Inr (rs, (?new, log @ [Error_caught e])) \<and> concat rs = [i]"
    using sorted by (auto simp: db dg)
  have reg: "register_all st [i] (?new, l) = Inr (Registry parent [] [(x, i)], l)" for l
    using valid by (simp add: register_fresh_eq hasComponent_def new_registry_def)
  from scan reg dir have "assemble E st parent componentDir cwd log
           = Inr (Registry parent [] [(x, i)], log @ [Error_caught e])"
    by (auto simp: assemble_def buildFromFs_def scanDir_def)
  then show ?thesis by (simp add: resolveComponents_load_fault)
qed

theorem scan_survives_load_failure_witness:
  "env_fs (tree_env two_files_root)
       (path_resolve (env_cwd (tree_env two_files_root)) (fullPath ''/app'' ''components''))
     = Some (Dir [(''bad.js'', File (Inl (Raised ''boom''))),
                  (''good.js'', File (Inr (class_component ''g'')))])
   \<and> keep_name ''bad.js'' \<and> keep_name ''good.js''
   \<and> (\<forall>xs. mset (env_sort (tree_env two_files_root) xs) = mset (map fst xs))
   \<and> isComponent [] (class_component ''g'') = Inr True
   \<and> componentFactory [] (class_component ''g'') = Inr (component_instance ''g'')
   \<and> metadata_name [] (component_instance ''g'') = Inr (JStr ''g'')
   \<and> assemble (tree_env two_files_root) [] None ''components'' ''/app'' []
       = Inr (Registry None [] [(JStr ''g'', component_instance ''g'')],
              [Error_caught (Raised ''boom'')])"
proof -
  let ?E = "tree_env two_files_root"
  have dir: "env_fs ?E (path_resolve (env_cwd ?E) (fullPath ''/app'' ''components''))
     = Some (Dir [(''bad.js'', File (Inl (Raised ''boom''))),
                  (''good.js'', File (Inr (class_component ''g'')))])"
    by code_simp
  have es: "[(''bad.js'', File (Inl (Raised ''boom''))), (''good.js'', File (Inr (class_component ''g'')))]
              = [(''bad.js'', File (Inl (Raised ''boom''))), (''good.js'', File (Inr (class_component ''g'')))]
            \<or> [(''bad.js'', File (Inl (Raised ''boom''))), (''good.js'', File (Inr (class_component ''g'')))]
              = [(''good.js'', File (Inr (class_component ''g''))), (''bad.js'', File (Inl (Raised ''boom'')))]"
    by simp
  have names: "keep_name ''bad.js'' \<and> keep_name ''good.js''"
    by code_simp
  have paths: "path_join (path_resolve (env_cwd ?E) (fullPath ''/app'' ''components'')) ''bad.js''
                  \<noteq> path_join (path_resolve (env_cwd ?E) (fullPath ''/app'' ''components'')) ''good.js''"
    by code_simp
  have sort: "\<forall>xs. mset (env_sort ?E xs) = mset (map fst xs)"
    by (simp add: tree_env_def)
  have valid: "isComponent [] (class_component ''g'') = Inr True
               \<and> componentFactory [] (class_component ''g'') = Inr (component_instance ''g'')
               \<and> metadata_name [] (component_instance ''g'') = Inr (JStr ''g'')"
    by code_simp
  show ?thesis
    using dir names sort valid
      scan_survives_load_failure [OF dir es names paths sort valid, of None "[]"]
    by simp
qed

section \<open>Merging\<close>

lemma register_with_components:
  assumes "register st c (node, log) = Inr (node', log')"
  shows "node' = with_components st [c] node \<and> (\<exists>n. metadata_name st c = Inr n)"
proof (cases "metadata_name st c")
  case (Inl e)
  with assms show ?thesis by (simp add: register_def)
next
  case (Inr n)
  show ?thesis
  proof (cases "hasComponent node n")
    case True
    with assms Inr show ?thesis
      by (auto simp: register_def with_components_def hasComponent_def split: sum.splits)
  next
    case False
    with assms Inr show ?thesis
      by (simp add: register_fresh_eq with_components_def hasComponent_def)
  qed
qed

lemma with_components_Cons:
  "metadata_name st c = Inr n \<Longrightarrow>
   with_components st (c # cs) node = with_components st cs (with_components st [c] node)"
  by (simp add: with_components_def)

lemma with_components_sel:
  "r_parent (with_components st cs node) = r_parent node"
  "r_collections (with_components st cs node) = r_collections node"
  by (simp_all add: with_components_def)

lemma register_in_collections_result:
  "register_in_collections st c colls log = Inr (colls', log') \<Longrightarrow>
   colls' = map (\<lambda>kc. (fst kc, with_components st [c] (snd kc))) colls"
proof (induction colls arbitrary: colls' log)
  case Nil
  then show ?case by simp
next
  case (Cons kc colls)
  obtain k coll where kc: "kc = (k, coll)" by (cases kc)
  from Cons.prems obtain coll1 log1 rest where
    1: "register st c (coll, log) = Inr (coll1, log1)"
    and 2: "register_in_collections st c colls log1 = Inr (rest, log')"
    and 3: "colls' = (k, coll1) # rest"
    by (auto simp: kc split: sum.splits)
  from register_with_components [OF 1] Cons.IH [OF 2] 3 show ?case by (simp add: kc)
qed

lemma merge_each_result:
  "merge_each st recursive cs (node, log) = Inr (node', log') \<Longrightarrow>
   (\<forall>c \<in> set cs. \<exists>n. metadata_name st c = Inr n)
   \<and> r_parent node' = r_parent node
   \<and> r_components node' = registered st cs (r_components node)
   \<and> r_collections node' =
        (if recursive
         then map (\<lambda>kc. (fst kc, with_components st cs (snd kc))) (r_collections node)
         else r_collections node)"
proof (induction cs arbitrary: node log)
  case Nil
  then show ?case by (simp add: with_components_def)
next
  case (Cons c cs)
  from Cons.prems obtain node1 log1 where
    1: "register st c (node, log) = Inr (node1, log1)"
    by (auto split: sum.splits)
  from register_with_components [OF 1] obtain n where
    n: "metadata_name st c = Inr n" and node1: "node1 = with_components st [c] node"
    by blast
  show ?case
  proof (cases recursive)
    case False
    with Cons.prems 1 have 2: "merge_each st recursive cs (node1, log1) = Inr (node', log')"
      by simp
    from Cons.IH [OF 2] False n show ?thesis
      by (simp add: node1 with_components_def)
  next
    case True
    with Cons.prems 1 obtain colls log2 where
      2: "register_in_collections st c (r_collections node1) log1 = Inr (colls, log2)"
      and 3: "merge_each st recursive cs
                (Registry (r_parent node1) colls (r_components node1), log2) = Inr (node', log')"
      by (auto split: sum.splits)
    from Cons.IH [OF 3] register_in_collections_result [OF 2] True n show ?thesis
      by (simp add: node1 with_components_def comp_def)
  qed
qed

lemma registered_keeps:
  "\<forall>c \<in> set cs. \<exists>n. metadata_name st c = Inr n \<Longrightarrow> map_of al m \<noteq> None \<Longrightarrow>
   map_of (registered st cs al) m = map_of al m"
proof (induction cs arbitrary: al)
  case Nil
  then show ?case by simp
next
  case (Cons x xs)
  from Cons.prems(1) obtain j where j: "metadata_name st x = Inr j" by auto
  let ?al = "if map_of al j \<noteq> None then al else al @ [(j, x)]"
  have same: "map_of ?al m = map_of al m"
    using Cons.prems(2) by (auto simp: map_add_def split: option.splits)
  then have "map_of ?al m \<noteq> None" using Cons.prems(2) by simp
  with Cons.IH [of ?al] Cons.prems(1) have "map_of (registered st xs ?al) m = map_of ?al m"
    by simp
  with same show ?case by (simp add: j)
qed

lemma registered_map_of:
  assumes "\<forall>c \<in> set cs. \<exists>n. metadata_name st c = Inr n"
      and "distinct (map (metadata_name st) cs)"
      and "c \<in> set cs" and "metadata_name st c = Inr n"
  shows "map_of (registered st cs al) n = (if map_of al n \<noteq> None then map_of al n else Some c)"
  using assms
proof (induction cs arbitrary: al)
  case Nil
  then show ?case by simp
next
  case (Cons d cs)
  from Cons.prems(1) obtain k where k: "metadata_name st d = Inr k" by auto
  from Cons.prems(1) have names: "\<forall>c \<in> set cs. \<exists>n. metadata_name st c = Inr n" by simp
  let ?al = "if map_of al k \<noteq> None then al else al @ [(k, d)]"
  have step: "registered st (d # cs) al = registered st cs ?al" by (simp add: k)
  show ?case
  proof (cases "c = d")
    case True
    then have kn: "k = n" using k Cons.prems(4) by simp
    have a: "map_of ?al n = (if map_of al n \<noteq> None then map_of al n else Some c)"
      using True kn by (auto simp: map_add_def split: option.splits)
    then have "map_of ?al n \<noteq> None" by auto
    from registered_keeps [OF names this] a show ?thesis by (simp only: step)
  next
    case False
    with Cons.prems(3) have c: "c \<in> set cs" by simp
    have "metadata_name st d \<notin> metadata_name st ` set cs" using Cons.prems(2) by simp
    with c have "metadata_name st d \<noteq> metadata_name st c" by blast
    then have kn: "k \<noteq> n" using k Cons.prems(4) by simp
    from Cons.prems(2) have dist: "distinct (map (metadata_name st) cs)" by simp
    have "map_of (registered st cs ?al) n = (if map_of ?al n \<noteq> None then map_of ?al n else Some c)"
      using Cons.IH [OF names dist c Cons.prems(4)] .
    moreover have "map_of ?al n = map_of al n"
      using kn by (auto simp: map_add_def split: option.splits)
    ultimately show ?thesis by (simp only: step)
  qed
qed

lemma received_with_components:
  assumes "\<forall>c \<in> set cs. \<exists>n. metadata_name st c = Inr n"
      and "distinct (map (metadata_name st) cs)"
      and "cs = map snd (getComponents source)"
      and "r_components node' = registered st cs (r_components node)"
  shows "received st source node node'"
  unfolding received_def
proof
  fix c assume "c \<in> snd ` set (getComponents source)"
  then have c: "c \<in> set cs" using assms(3) by simp
  with assms(1) obtain n where n: "metadata_name st c = Inr n" by auto
  from registered_map_of [OF assms(1) assms(2) c n, of "r_components node"]
  show "\<exists>n. metadata_name st c = Inr n \<and>
            getComponent node' n = (if hasComponent node n then getComponent node n else Some c)"
    using n by (simp add: getComponent_def hasComponent_def assms(4))
qed

text \<open>
  C3, as amended. Let \<^verbatim>\<open>merge\<close> return, for a source registry whose components report
  distinct names. Then the receiving node has received the components of the source:
  each has a name, and the node holds under that name the component, or what it held
  under that name before the merge. The keys of the collections of the node are what they
  were, in the same order. When \<open>recursive\<close> is true every collection of the node has
  received the components of the source in the same sense; when it is false the
  collections are unchanged. The result does not depend on the parent or the collections
  of the source.
\<close>

theorem merge_propagates:
  assumes m: "merge st source recursive (node, log) = Inr (node', log')"
      and d: "distinct (map (metadata_name st) (map snd (getComponents source)))"
  shows "received st source node node'
       \<and> map fst (r_collections node') = map fst (r_collections node)
       \<and> (if recursive
           then list_all2 (\<lambda>kc kc'. fst kc' = fst kc \<and> received st source (snd kc) (snd kc'))
                  (r_collections node) (r_collections node')
           else r_collections node' = r_collections node)
       \<and> merge st (Registry p colls (r_components source)) recursive (node, log)
           = merge st source recursive (node, log)"
proof -
  let ?cs = "map snd (getComponents source)"
  from m have me: "merge_each st recursive ?cs (node, log) = Inr (node', log')"
    by (simp add: merge_def)
  note r = merge_each_result [OF me]
  from r have names: "\<forall>c \<in> set ?cs. \<exists>n. metadata_name st c = Inr n" by blast
  have 1: "received st source node node'"
    using received_with_components [OF names d refl] r by blast
  have 2: "map fst (r_collections node') = map fst (r_collections node)"
    using r by (simp add: comp_def)
  have rec: "received st source coll (with_components st ?cs coll)" for coll
    using received_with_components [OF names d refl] by (simp add: with_components_def)
  have 3: "list_all2 (\<lambda>kc kc'. fst kc' = fst kc \<and> received st source (snd kc) (snd kc'))
             (r_collections node) (r_collections node')" if recursive
    using r that rec by (simp add: list_all2_map2 list_all2_same)
  have 4: "r_collections node' = r_collections node" if "\<not> recursive"
    using r that by simp
  have 5: "merge st (Registry p colls (r_components source)) recursive (node, log)
           = merge st source recursive (node, log)"
    by (simp add: merge_def getComponents_def)
  from 1 2 3 4 5 show ?thesis by simp
qed

theorem merge_propagates_witness:
  "merge [] example_source True (example_target, [])
     = Inr (example_merged, [Warn_duplicate (JStr ''x'') (JStr ''Object'')])
   \<and> distinct (map (metadata_name []) (map snd (getComponents example_source)))
   \<and> received [] example_source example_target example_merged
   \<and> map fst (r_collections example_merged) = map fst (r_collections example_target)
   \<and> list_all2 (\<lambda>kc kc'. fst kc' = fst kc \<and> received [] example_source (snd kc) (snd kc'))
        (r_collections example_target) (r_collections example_merged)"
proof -
  have m: "merge [] example_source True (example_target, [])
     = Inr (example_merged, [Warn_duplicate (JStr ''x'') (JStr ''Object'')])"
    by code_simp
  have d: "distinct (map (metadata_name []) (map snd (getComponents example_source)))"
    by code_simp
  show ?thesis
    using m d merge_propagates [OF m d] by simp
qed

text \<open>
  C3, the counterexample. The target registry has the collections \<open>c1\<close> and \<open>c2\<close> and
  a component named \<open>x\<close>; the source has another component named \<open>x\<close>. After the
  recursive merge the component of the source is among the components of the source and
  not among those of the target, which kept its own \<open>x\<close> and logged the duplicate.
\<close>

theorem merge_collision:
  "merge [] example_source True (example_target, [])
     = Inr (example_merged, [Warn_duplicate (JStr ''x'') (JStr ''Object'')])
   \<and> map fst (r_collections example_target) = [''c1'', ''c2'']
   \<and> tagged_component ''x'' \<in> snd ` set (getComponents example_source)
   \<and> tagged_component ''x'' \<notin> snd ` set (getComponents example_merged)"
  by code_simp

section \<open>Metadata\<close>

lemma extends_deref: "extends st st' \<Longrightarrow> a < length st \<Longrightarrow> deref st' a = deref st a"
  unfolding extends_def deref_def
  by (metis le_trans less_le_not_le nth_take not_le)

lemma extends_getprop: "extends st st' \<Longrightarrow> allocated st v \<Longrightarrow> getprop st' v k = getprop st v k"
  by (cases v) (simp_all add: extends_deref)

lemma extends_call_method:
  "extends st st' \<Longrightarrow> allocated st v \<Longrightarrow> call_method st' v k = call_method st v k"
  by (simp add: call_method_def extends_getprop)

lemma extends_own_props: "extends st st' \<Longrightarrow> allocated st v \<Longrightarrow> own_props st' v = own_props st v"
  by (cases v) (simp_all add: extends_deref)

lemma extends_append: "extends st st' \<Longrightarrow> extends st (st' @ xs)"
  by (simp add: extends_def)

lemma extends_refl: "extends st st"
  by (simp add: extends_def)


lemma copy_metadata_extends:
  "extends st0 st \<Longrightarrow> well_stored st0 cs \<Longrightarrow>
   copy_metadata cs meta st =
     (case descriptors st0 cs of
        Inl e \<Rightarrow> Inl e
      | Inr ms \<Rightarrow> Inr (meta @ map JRef [length st..<length st + length ms],
                      st @ map (own_props st0) ms))"
proof (induction cs arbitrary: meta st)
  case Nil
  then show ?case by simp
next
  case (Cons nc cs)
  obtain n c where nc: "nc = (n, c)" by (cases nc)
  have ws: "well_stored st0 cs" and c: "allocated st0 c"
    and m: "\<And>m. call_method st0 c ''metadata'' = Inr m \<Longrightarrow> allocated st0 m"
    using Cons.prems(2) by (auto simp: well_stored_def nc)
  have call: "call_method st c ''metadata'' = call_method st0 c ''metadata''"
    using Cons.prems(1) c by (rule extends_call_method)
  show ?case
  proof (cases "call_method st0 c ''metadata''")
    case (Inl e)
    then show ?thesis by (simp add: nc call)
  next
    case (Inr d)
    have own: "own_props st d = own_props st0 d"
      using Cons.prems(1) m [OF Inr] by (rule extends_own_props)
    have ext: "extends st0 (st @ [own_props st0 d])"
      using Cons.prems(1) by (rule extends_append)
    show ?thesis
    proof (cases "descriptors st0 cs")
      case (Inl e)
      then show ?thesis
        using Cons.IH [OF ext ws, of "meta @ [JRef (length st)]"]
        by (simp add: nc call Inr own)
    next
      case ms: (Inr ms)
      have upt: "[length st..<length st + length (d # ms)]
                   = length st # [length (st @ [own_props st0 d])..<
                                   length (st @ [own_props st0 d]) + length ms]"
        by (subst upt_rec) simp
      have "copy_metadata (nc # cs) meta st
              = copy_metadata cs (meta @ [JRef (length st)]) (st @ [own_props st0 d])"
        by (simp add: nc call Inr own)
      also have "\<dots> = Inr ((meta @ [JRef (length st)]) @
                     map JRef [length (st @ [own_props st0 d])..<
                               length (st @ [own_props st0 d]) + length ms],
                   (st @ [own_props st0 d]) @ map (own_props st0) ms)"
        using Cons.IH [OF ext ws, of "meta @ [JRef (length st)]"] by (simp only: ms sum.case)
      also have "\<dots> = Inr (meta @ map JRef [length st..<length st + length (d # ms)],
                   st @ map (own_props st0) (d # ms))"
        by (simp only: upt list.map append_assoc append_Cons append_Nil)
      finally show ?thesis
        by (simp only: nc descriptors.simps Inr ms sum.case)
    qed
  qed
qed





text \<open>
  C10. For a collection name that converts to false, the empty string among them,
  \<^verbatim>\<open>getRegistry\<close> returns the node itself and \<^verbatim>\<open>getMetadata\<close> does what it does without
  a name, leaving the log as it is when it returns. What it returns is the metadata of
  the node itself: where the components of the node are well stored, it faults if
  \<^verbatim>\<open>metadata()\<close> of one of them does, and otherwise returns one newly allocated object for
  each component of the node, in order, holding the own properties of the descriptor of
  that component, with the log unchanged. \<^verbatim>\<open>getRegistry\<close> of a string returns nothing
  exactly when the string is non-empty and no collection has that name, and then
  \<^verbatim>\<open>getMetadata\<close> returns the empty sequence and logs the error.
\<close>

theorem falsy_collection_name:
  assumes "\<not> truthy c"
  shows "getRegistry this c = Some this
       \<and> getMetadata this c st log = getMetadata this JUndefined st log
       \<and> (\<forall>meta st' log'. getMetadata this c st log = Inr (meta, st', log') \<longrightarrow> log' = log)
       \<and> (well_stored st (getComponents this) \<longrightarrow>
            getMetadata this c st log =
              (case descriptors st (getComponents this) of
                 Inl e \<Rightarrow> Inl e
               | Inr ms \<Rightarrow>
                  Inr (map JRef [length st..<length st + length ms],
                       st @ map (own_props st) ms, log)))
       \<and> (getRegistry this (JStr s) = None \<longleftrightarrow> s \<noteq> [] \<and> \<not> isCollection this s)
       \<and> (s \<noteq> [] \<and> \<not> isCollection this s \<longrightarrow>
            getMetadata this (JStr s) st log = Inr ([], st, log @ [Error_invalid_registry (JStr s)]))"
proof -
  have self: "getRegistry this c = Some this"
    using assms by (simp add: getRegistry_def)
  have same: "getMetadata this c st log = getMetadata this JUndefined st log"
    using assms by (simp add: getMetadata_def getRegistry_def)
  have quiet: "\<forall>meta st' log'. getMetadata this c st log = Inr (meta, st', log') \<longrightarrow> log' = log"
    using self by (auto simp: getMetadata_def split: sum.splits)
  have own: "getMetadata this c st log =
              (case descriptors st (getComponents this) of
                 Inl e \<Rightarrow> Inl e
               | Inr ms \<Rightarrow>
                  Inr (map JRef [length st..<length st + length ms],
                       st @ map (own_props st) ms, log))"
    if stored: "well_stored st (getComponents this)"
    using copy_metadata_extends [OF extends_refl stored, of "[]"]
    by (simp add: getMetadata_def self split: sum.splits)
  have missing: "getRegistry this (JStr s) = None \<longleftrightarrow> s \<noteq> [] \<and> \<not> isCollection this s"
    by (simp add: getRegistry_def isCollection_def)
  have err: "s \<noteq> [] \<and> \<not> isCollection this s \<longrightarrow>
            getMetadata this (JStr s) st log = Inr ([], st, log @ [Error_invalid_registry (JStr s)])"
    by (simp add: getMetadata_def getRegistry_def isCollection_def)
  from self same quiet own missing err show ?thesis by blast
qed

theorem falsy_collection_name_witness:
  "\<not> truthy (JStr [])
   \<and> getRegistry example_target (JStr []) = Some example_target
   \<and> getMetadata example_target (JStr []) [] [] = getMetadata example_target JUndefined [] []
   \<and> well_stored [] (getComponents example_target)
   \<and> descriptors [] (getComponents example_target) = Inr [descriptor ''x'']
   \<and> getMetadata example_target (JStr []) [] [] = Inr ([JRef 0], [[(''name'', JStr ''x'')]], [])
   \<and> (getRegistry example_target (JStr ''c3'') = None
        \<longleftrightarrow> ''c3'' \<noteq> [] \<and> \<not> isCollection example_target ''c3'')
   \<and> getMetadata example_target (JStr ''c3'') [] []
       = Inr ([], [], [Error_invalid_registry (JStr ''c3'')])"
proof -
  have f: "\<not> truthy (JStr [])" by simp
  have n: "\<not> isCollection example_target ''c3''" by code_simp
  have w: "well_stored [] (getComponents example_target)"
    by (simp add: well_stored_def getComponents_def example_target_def legacy_component_def
          call_method_def descriptor_def)
  have d: "descriptors [] (getComponents example_target) = Inr [descriptor ''x'']"
    by code_simp
  note t = falsy_collection_name [OF f, of example_target "[]" "[]" "''c3''"]
  from t w have "getMetadata example_target (JStr []) [] [] =
              (case descriptors [] (getComponents example_target) of
                 Inl e \<Rightarrow> Inl e
               | Inr ms \<Rightarrow>
                  Inr (map JRef [length ([] :: store)..<length ([] :: store) + length ms],
                       [] @ map (own_props []) ms, []))"
    by blast
  then have own: "getMetadata example_target (JStr []) [] []
                    = Inr ([JRef 0], [[(''name'', JStr ''x'')]], [])"
    by (simp add: d descriptor_def)
  from t have rest: "getRegistry example_target (JStr []) = Some example_target
     \<and> getMetadata example_target (JStr []) [] [] = getMetadata example_target JUndefined [] []
     \<and> (getRegistry example_target (JStr ''c3'') = None
          \<longleftrightarrow> ''c3'' \<noteq> [] \<and> \<not> isCollection example_target ''c3'')
     \<and> (''c3'' \<noteq> [] \<and> \<not> isCollection example_target ''c3'' \<longrightarrow>
            getMetadata example_target (JStr ''c3'') [] []
              = Inr ([], [], [] @ [Error_invalid_registry (JStr ''c3'')]))"
    by blast
  from f n w d own rest show ?thesis by simp
qed

end
